theory Spec2Isabelle
  imports Complex_Main "HOL-Library.AList"
begin

section \<open>Strings and numbers of the runtime\<close>

text \<open>
  A string is a list of characters with codes below 256; a missing (undefined or null)
  string field of a document is the empty string, since every use in the code is a
  truthiness test or a \<^verbatim>\<open>|| ''\<close> default. Numbers that the code divides or
  weights are reals; counters are natural numbers or integers.
\<close>

definition upper_chars :: string where
  "upper_chars = ''ABCDEFGHIJKLMNOPQRSTUVWXYZ''"

definition lower_chars :: string where
  "lower_chars = ''abcdefghijklmnopqrstuvwxyz''"

definition digit_chars :: string where
  "digit_chars = ''0123456789''"

text \<open>
  \<^verbatim>\<open>String.prototype.toLowerCase\<close> on one character: the 26 letters and the
  capital letters with codes 0xC0 to 0xDE (0xD7, the multiplication sign, apart).
\<close>

definition upper_latin1 :: string where
  "upper_latin1 = [CHR 0xC0, CHR 0xC1, CHR 0xC2, CHR 0xC3, CHR 0xC4, CHR 0xC5, CHR 0xC6, CHR 0xC7, CHR 0xC8, CHR 0xC9, CHR 0xCA, CHR 0xCB, CHR 0xCC, CHR 0xCD, CHR 0xCE, CHR 0xCF,
     CHR 0xD0, CHR 0xD1, CHR 0xD2, CHR 0xD3, CHR 0xD4, CHR 0xD5, CHR 0xD6, CHR 0xD8, CHR 0xD9, CHR 0xDA, CHR 0xDB, CHR 0xDC, CHR 0xDD, CHR 0xDE]"

definition lower_latin1 :: string where
  "lower_latin1 = [CHR 0xE0, CHR 0xE1, CHR 0xE2, CHR 0xE3, CHR 0xE4, CHR 0xE5, CHR 0xE6, CHR 0xE7, CHR 0xE8, CHR 0xE9, CHR 0xEA, CHR 0xEB, CHR 0xEC, CHR 0xED, CHR 0xEE, CHR 0xEF,
     CHR 0xF0, CHR 0xF1, CHR 0xF2, CHR 0xF3, CHR 0xF4, CHR 0xF5, CHR 0xF6, CHR 0xF8, CHR 0xF9, CHR 0xFA, CHR 0xFB, CHR 0xFC, CHR 0xFD, CHR 0xFE]"

definition lower_char :: "char \<Rightarrow> char" where
  "lower_char c =
     (case map_of (zip (upper_chars @ upper_latin1) (lower_chars @ lower_latin1)) c of
        Some d \<Rightarrow> d
      | None \<Rightarrow> c)"

definition toLowerCase :: "string \<Rightarrow> string" where
  "toLowerCase s = map lower_char s"

text \<open>The regular-expression classes \<^verbatim>\<open>\w\<close> and \<^verbatim>\<open>\s\<close>.\<close>

definition is_word_char :: "char \<Rightarrow> bool" where
  "is_word_char c = (c \<in> set (upper_chars @ lower_chars @ digit_chars @ ''_''))"

definition is_space_char :: "char \<Rightarrow> bool" where
  "is_space_char c = (c \<in> set [CHR '' '', CHR 0x09, CHR 0x0A, CHR 0x0B, CHR 0x0C, CHR 0x0D, CHR 0xA0])"

text \<open>\<^verbatim>\<open>s.startsWith(t)\<close> and \<^verbatim>\<open>s.includes(t)\<close>.\<close>

fun startsWith :: "string \<Rightarrow> string \<Rightarrow> bool" where
  "startsWith s [] = True"
| "startsWith [] (d # t) = False"
| "startsWith (c # s) (d # t) = (c = d \<and> startsWith s t)"

fun str_includes :: "string \<Rightarrow> string \<Rightarrow> bool" where
  "str_includes [] t = (t = [])"
| "str_includes (c # s) t = (startsWith (c # s) t \<or> str_includes s t)"

text \<open>\<^verbatim>\<open>parts.join(' ')\<close>.\<close>

fun join_sp :: "string list \<Rightarrow> string" where
  "join_sp [] = []"
| "join_sp [p] = p"
| "join_sp (p # q # ps) = p @ '' '' @ join_sp (q # ps)"

text \<open>
  \<^verbatim>\<open>s.split(/[...]+/)\<close> for a character class \<open>P\<close>: the pieces between maximal
  runs of separator characters, the empty pieces at both ends included. The flag says
  whether the previous character was a separator.
\<close>

fun split_go :: "(char \<Rightarrow> bool) \<Rightarrow> bool \<Rightarrow> string \<Rightarrow> string list" where
  "split_go P insep [] = [[]]"
| "split_go P insep (c # cs) =
     (if P c then (if insep then split_go P True cs else [] # split_go P True cs)
      else (case split_go P False cs of [] \<Rightarrow> [[c]] | w # ws \<Rightarrow> (c # w) # ws))"

definition split_runs :: "(char \<Rightarrow> bool) \<Rightarrow> string \<Rightarrow> string list" where
  "split_runs P s = split_go P False s"

definition trim :: "string \<Rightarrow> string" where
  "trim s = rev (dropWhile is_space_char (rev (dropWhile is_space_char s)))"

text \<open>\<^verbatim>\<open>Math.round\<close>: to the nearest integer, halves upwards.\<close>

definition math_round :: "real \<Rightarrow> int" where
  "math_round x = \<lfloor>x + 1 / 2\<rfloor>"


section \<open>Documents\<close>

text \<open>
  The structured document built by the extractor, as the scorer, the index and the
  scheduler read it. Record fields carry a prefix where two records of the code use the
  same field name.
\<close>

record heading =
  h_level :: int
  h_text :: string

record link =
  l_url :: string
  l_text :: string
  l_context :: string
  isInternal :: bool

record image =
  alt :: string

record structured =
  sd_type :: string

record content =
  url :: string
  title :: string
  description :: string
  author :: string
  publishDate :: string
  c_keywords :: "string list"
  headings :: "heading list"
  paragraphs :: "string list"
  links :: "link list"
  images :: "image list"
  structuredData :: "structured list"
  wordCount :: nat
  qualityScore :: int
  contentType :: string
  topics :: "string list"

text \<open>
  What the code takes from outside the repository: the Porter stemmer of the
  \<^verbatim>\<open>natural\<close> package, the clock (\<^verbatim>\<open>Date.now()\<close>, in milliseconds), the
  date parser (\<^verbatim>\<open>new Date(s)\<close>; \<open>None\<close> is an invalid date, whose time is NaN) and
  the regular-expression engine counting the matches of a pattern built from a phrase
  (\<open>None\<close>: the constructor rejects the pattern).
\<close>

record runtime =
  stem :: "string \<Rightarrow> string"
  now :: real
  parseDate :: "string \<Rightarrow> real option"
  regexMatches :: "string \<Rightarrow> string \<Rightarrow> nat option"

section \<open>TextProcessor\<close>

definition stopWords :: "string list" where
  "stopWords =
    [''a'', ''an'', ''and'', ''are'', ''as'', ''at'', ''be'', ''by'', ''for'', ''from'', ''has'', ''he'',
     ''in'', ''is'', ''it'', ''its'', ''of'', ''on'', ''that'', ''the'', ''to'', ''was'', ''were'',
     ''will'', ''with'', ''would'', ''could'', ''should'', ''this'', ''these'', ''they'', ''them'',
     ''their'', ''there'', ''where'', ''when'', ''what'', ''who'', ''why'', ''how'', ''can'', ''do'',
     ''have'', ''had'', ''been'', ''being'', ''but'', ''not'', ''or'', ''so'', ''if'', ''no'', ''yes'']"

record tokenize_options =
  removeStopWords :: bool
  minLength :: nat
  maxLength :: nat
  stem_tokens :: bool

text \<open>The defaults of \<^verbatim>\<open>tokenize\<close>: no stop-word removal, lengths 1 to 50, stemming.\<close>

definition tokenize_defaults :: tokenize_options where
  "tokenize_defaults = \<lparr>removeStopWords = False, minLength = 1, maxLength = 50, stem_tokens = True\<rparr>"

definition tokenize :: "runtime \<Rightarrow> tokenize_options \<Rightarrow> string \<Rightarrow> string list" where
  "tokenize rt opts txt =
     (if txt = [] then []
      else
        let spaced = map (\<lambda>c. if is_word_char c \<or> is_space_char c then c else CHR '' '') (toLowerCase txt);
            tokens = filter (\<lambda>t. minLength opts \<le> length t \<and> length t \<le> maxLength opts)
                       (split_runs is_space_char spaced);
            tokens = (if removeStopWords opts then filter (\<lambda>t. t \<notin> set stopWords) tokens else tokens)
        in if stem_tokens opts then map (stem rt) tokens else tokens)"

text \<open>
  \<^verbatim>\<open>extractKeywords\<close> counts the words in an object keyed by word and returns its
  entries, most frequent first, cut to \<open>maxKeywords\<close>. Assigning to the key
  \<^verbatim>\<open>__proto__\<close> of an object creates no entry. The scorer reads only the number
  of entries, which is what this definition gives; the order in which an object lists
  keys that look like integers, and the count kept under a key that every object
  inherits, are not modelled.
\<close>

definition extractKeywords :: "runtime \<Rightarrow> nat \<Rightarrow> string \<Rightarrow> (string \<times> nat) list" where
  "extractKeywords rt maxKeywords txt =
     (let ws = tokenize rt (tokenize_defaults\<lparr>removeStopWords := True, minLength := 3\<rparr>) txt;
          keys = filter (\<lambda>w. w \<noteq> ''__proto__'') (remdups (rev ws));
          entries = map (\<lambda>w. (w, count_list ws w)) (rev keys)
      in take maxKeywords (sort_key (\<lambda>e. - int (snd e)) entries))"

section \<open>QualityScorer\<close>

text \<open>The thresholds and weights set by the constructor.\<close>

definition minWordCount :: real where "minWordCount = 100"
definition optimalWordCount :: real where "optimalWordCount = 800"
definition maxWordCount :: real where "maxWordCount = 5000"
definition optimalHeadings :: real where "optimalHeadings = 5"

definition scoreWordCount :: "real \<Rightarrow> real" where
  "scoreWordCount wc =
     (if wc < minWordCount then (wc / minWordCount) * 50
      else if wc \<le> optimalWordCount then
        50 + ((wc - minWordCount) / (optimalWordCount - minWordCount)) * 50
      else if wc \<le> maxWordCount then
        100 - ((wc - optimalWordCount) / (maxWordCount - optimalWordCount)) * 20
      else 80)"

text \<open>The loop over neighbouring headings: how many do not skip a level.\<close>

fun hierarchyScore :: "int list \<Rightarrow> nat" where
  "hierarchyScore (prev # cur # rest) =
     (if cur \<le> prev + 1 then 1 else 0) + hierarchyScore (cur # rest)"
| "hierarchyScore _ = 0"

definition scoreHeadingStructure :: "heading list \<Rightarrow> real" where
  "scoreHeadingStructure hs =
     (if length hs = 0 then 0
      else
        let levels = map h_level hs;
            score = min (real (length hs) / optimalHeadings) 1 * 60;
            score = (if 1 \<in> set levels then score + 20 else score);
            score = (if 1 < length (remdups levels) then score + 20 else score);
            score = (if 1 < length hs
                     then score + (real (hierarchyScore levels) / real (length hs - 1)) * 20
                     else score)
        in min score 100)"

definition scoreMetaInformation :: "content \<Rightarrow> real" where
  "scoreMetaInformation c =
     (let score = (if title c \<noteq> [] then
                     25 + (if 10 \<le> length (title c) \<and> length (title c) \<le> 70 then 15 else 0)
                   else 0);
          score = (if description c \<noteq> [] then
                     score + 25 +
                       (if 50 \<le> length (description c) \<and> length (description c) \<le> 300 then 15 else 0)
                   else score);
          score = (if author c \<noteq> [] then score + 10 else score);
          score = (if publishDate c \<noteq> [] then score + 10 else score);
          score = (if 0 < length (c_keywords c) then score + 10 else score)
      in min score 100)"

definition qualityLink :: "link \<Rightarrow> bool" where
  "qualityLink l =
     (l_text l \<noteq> [] \<and> 5 < length (l_text l) \<and> \<not> str_includes (toLowerCase (l_text l)) ''click here'')"

definition scoreLinkQuality :: "link list \<Rightarrow> real" where
  "scoreLinkQuality ls =
     (if length ls = 0 then 0
      else
        let internalLinks = filter isInternal ls;
            externalLinks = filter (\<lambda>l. \<not> isInternal l) ls;
            score = min (real (length ls) / 10) 1 * 30;
            score = (if 0 < length internalLinks then score + 20 else score);
            score = (if 0 < length externalLinks then score + 10 else score);
            qualityLinks = filter qualityLink ls;
            score = (if 0 < length ls
                     then score + (real (length qualityLinks) / real (length ls)) * 40
                     else score)
        in min score 100)"

definition scoreImagePresence :: "image list \<Rightarrow> real" where
  "scoreImagePresence imgs =
     (if length imgs = 0 then 0
      else
        let score = 30;
            imagesWithAlt = filter (\<lambda>i. alt i \<noteq> [] \<and> 5 < length (alt i)) imgs;
            score = (if 0 < length imgs
                     then score + (real (length imagesWithAlt) / real (length imgs)) * 40
                     else score);
            score = (if 2 \<le> length imgs \<and> length imgs \<le> 10 then score + 30 else score)
        in min score 100)"

definition is_sentence_end :: "char \<Rightarrow> bool" where
  "is_sentence_end c = (c \<in> set ''.!?'')"

definition scoreTextQuality :: "runtime \<Rightarrow> content \<Rightarrow> real" where
  "scoreTextQuality rt c =
     (let allText = join_sp ([title c, description c] @ paragraphs c)
      in if allText = [] then 0
         else
           let ps = paragraphs c;
               avgLength = real (sum_list (map length ps)) / real (length ps);
               score = (if 0 < length ps
                        then min (real (length ps) / 5) 1 * 25 +
                             (if 50 \<le> avgLength \<and> avgLength \<le> 200 then 25 else 0)
                        else 0);
               sentences = filter (\<lambda>s. 10 < length (trim s)) (split_runs is_sentence_end allText);
               avgSentenceLength = real (length allText) / real (length sentences);
               score = (if 0 < length sentences \<and> 15 \<le> avgSentenceLength \<and> avgSentenceLength \<le> 30
                        then score + 25 else score);
               kws = extractKeywords rt 20 allText;
               score = (if 5 \<le> length kws then score + 25 else score)
           in min score 100)"

definition scoreStructuredData :: "structured list \<Rightarrow> real" where
  "scoreStructuredData sd =
     (if length sd = 0 then 0
      else
        let score = 50;
            score = (if list_ex (\<lambda>d. sd_type d = ''json-ld'') sd then score + 30 else score);
            score = (if list_ex (\<lambda>d. sd_type d = ''microdata'') sd then score + 20 else score)
        in min score 100)"

text \<open>
  \<^verbatim>\<open>scoreFreshness\<close>: the age in days; with an invalid date the age is NaN, every
  comparison fails and the neutral 50 is returned.
\<close>

definition scoreFreshness :: "runtime \<Rightarrow> string \<Rightarrow> real" where
  "scoreFreshness rt pd =
     (if pd = [] then 50
      else case parseDate rt pd of
        None \<Rightarrow> 50
      | Some t \<Rightarrow>
          let daysDiff = (now rt - t) / (1000 * 60 * 60 * 24)
          in if daysDiff < 0 then 50
             else if daysDiff \<le> 7 then 100
             else if daysDiff \<le> 30 then 90
             else if daysDiff \<le> 90 then 80
             else if daysDiff \<le> 365 then 70
             else if daysDiff \<le> 730 then 60
             else 50)"

text \<open>
  \<^verbatim>\<open>calculate\<close>; \<open>None\<close> is a missing document (\<^verbatim>\<open>!content\<close>). The
  weighted sum is exact here; the code adds floating-point numbers, whose sum can lie
  just below an exact half and then rounds to the integer below the one given here. The
  clamp to 0 and 100 is the same in both.
\<close>

definition calculate :: "runtime \<Rightarrow> content option \<Rightarrow> int" where
  "calculate rt co =
     (case co of
        None \<Rightarrow> 0
      | Some c \<Rightarrow>
          let totalScore = 0;
              totalScore = totalScore + scoreWordCount (real (wordCount c)) * (2 / 10);
              totalScore = totalScore + scoreHeadingStructure (headings c) * (15 / 100);
              totalScore = totalScore + scoreMetaInformation c * (15 / 100);
              totalScore = totalScore + scoreLinkQuality (links c) * (1 / 10);
              totalScore = totalScore + scoreImagePresence (images c) * (5 / 100);
              totalScore = totalScore + scoreTextQuality rt c * (2 / 10);
              totalScore = totalScore + scoreStructuredData (structuredData c) * (1 / 10);
              totalScore = totalScore + scoreFreshness rt (publishDate c) * (5 / 100)
          in min (max (math_round totalScore) 0) 100)"

section \<open>Maps and sets of the runtime\<close>

text \<open>
  A \<^verbatim>\<open>Map\<close> is an association list in insertion order: \<^verbatim>\<open>set\<close> on a present
  key replaces the value in place, on a new key appends (\<^const>\<open>AList.update\<close>);
  \<^verbatim>\<open>get\<close> is \<^const>\<open>map_of\<close>. A \<^verbatim>\<open>Set\<close> is a list in insertion order.
  \<^verbatim>\<open>Array.from\<close> of either is the list itself.
\<close>

definition map_has :: "('k \<times> 'v) list \<Rightarrow> 'k \<Rightarrow> bool" where
  "map_has m k = (map_of m k \<noteq> None)"

definition set_add :: "'a \<Rightarrow> 'a list \<Rightarrow> 'a list" where
  "set_add x xs = (if x \<in> set xs then xs else xs @ [x])"

text \<open>\<^verbatim>\<open>new Map(entries)\<close> and \<^verbatim>\<open>new Set(items)\<close>.\<close>

definition new_Map :: "('k \<times> 'v) list \<Rightarrow> ('k \<times> 'v) list" where
  "new_Map entries = foldl (\<lambda>m (k, v). AList.update k v m) [] entries"

definition new_Set :: "'a list \<Rightarrow> 'a list" where
  "new_Set items = foldl (\<lambda>s x. set_add x s) [] items"

section \<open>SearchEngine\<close>

text \<open>
  A document-frequency entry is a number; \<open>NaN\<close> is what \<^verbatim>\<open>undefined + 1\<close>
  gives when the table has no entry for a term of the inverted index.
\<close>

datatype count = Count nat | NaN

record content_meta =
  m_url :: string
  m_title :: string
  m_description :: string
  m_qualityScore :: int
  m_contentType :: string
  m_publishDate :: string
  m_wordCount :: nat
  m_topics :: "string list"

record index_entry =
  fieldTerms :: "(string \<times> string list) list"
  allText :: string
  terms :: "string list"
  termCount :: nat

record engine =
  index :: "(string \<times> index_entry) list"
  invertedIndex :: "(string \<times> string list) list"
  termFrequency :: "(string \<times> (string \<times> real) list) list"
  documentFrequency :: "(string \<times> count) list"
  contentStore :: "(string \<times> content_meta) list"
  totalDocuments :: nat
  defaultLimit :: nat
  maxLimit :: nat
  minQueryLength :: nat
  enableFuzzySearch :: bool
  boostFactors :: "(string \<times> real) list"

text \<open>
  The constructor, on the \<^verbatim>\<open>search\<close> section of the configuration; each field
  of the section may be missing, and a number 0 counts as missing (\<^verbatim>\<open>||\<close>).
\<close>

record search_config =
  cfg_defaultLimit :: "nat option"
  cfg_maxLimit :: "nat option"
  cfg_minQueryLength :: "nat option"
  cfg_enableFuzzySearch :: "bool option"
  cfg_boostFactors :: "(string \<times> real) list option"

definition or_default :: "nat option \<Rightarrow> nat \<Rightarrow> nat" where
  "or_default v d = (case v of None \<Rightarrow> d | Some n \<Rightarrow> if n = 0 then d else n)"

definition SearchEngine :: "search_config \<Rightarrow> engine" where
  "SearchEngine cfg =
     \<lparr>index = [], invertedIndex = [], termFrequency = [], documentFrequency = [],
      contentStore = [], totalDocuments = 0,
      defaultLimit = or_default (cfg_defaultLimit cfg) 10,
      maxLimit = or_default (cfg_maxLimit cfg) 100,
      minQueryLength = or_default (cfg_minQueryLength cfg) 2,
      enableFuzzySearch = (cfg_enableFuzzySearch cfg \<noteq> Some False),
      boostFactors = (case cfg_boostFactors cfg of
          None \<Rightarrow> [(''title'', 10), (''description'', 5), (''content'', 2), (''quality'', 1 / 10)]
        | Some b \<Rightarrow> b)\<rparr>"

text \<open>The \<^verbatim>\<open>search\<close> section of \<^verbatim>\<open>config/default.js\<close>.\<close>

definition default_search_config :: search_config where
  "default_search_config =
     \<lparr>cfg_defaultLimit = Some 10, cfg_maxLimit = Some 100, cfg_minQueryLength = Some 2,
      cfg_enableFuzzySearch = Some True,
      cfg_boostFactors = Some [(''title'', 10), (''description'', 5), (''headings'', 3),
        (''content'', 2), (''keywords'', 4), (''quality'', 1 / 10), (''freshness'', 2 / 10),
        (''exactMatch'', 5)]\<rparr>"

definition tokenizeText :: "runtime \<Rightarrow> string \<Rightarrow> string list" where
  "tokenizeText rt txt =
     (if txt = [] then []
      else tokenize rt \<lparr>removeStopWords = True, minLength = 2, maxLength = 50, stem_tokens = True\<rparr> txt)"

text \<open>\<^verbatim>\<open>this.boostFactors[field] || 1\<close>.\<close>

definition field_boost :: "engine \<Rightarrow> string \<Rightarrow> real" where
  "field_boost e field =
     (case map_of (boostFactors e) field of None \<Rightarrow> 1 | Some b \<Rightarrow> if b = 0 then 1 else b)"

definition add_term_freq :: "real \<Rightarrow> (string \<times> real) list \<Rightarrow> string \<Rightarrow> (string \<times> real) list" where
  "add_term_freq boost termFreq t =
     AList.update t ((case map_of termFreq t of None \<Rightarrow> 0 | Some f \<Rightarrow> f) + boost) termFreq"

definition count_succ :: "count option \<Rightarrow> count" where
  "count_succ c = (case c of Some (Count n) \<Rightarrow> Count (n + 1) | _ \<Rightarrow> NaN)"

text \<open>The body of the loop over \<open>allTerms\<close> that updates the inverted index.\<close>

definition index_term ::
  "string \<Rightarrow> (string \<times> string list) list \<times> (string \<times> count) list \<Rightarrow> string \<Rightarrow>
   (string \<times> string list) list \<times> (string \<times> count) list" where
  "index_term contentId tables t =
     (let (ix, df) = tables;
          (ix, df) = (if \<not> map_has ix t
                       then (AList.update t [] ix, AList.update t (Count 0) df)
                       else (ix, df))
      in case map_of ix t of
           None \<Rightarrow> (ix, df)
         | Some docIds \<Rightarrow>
             if contentId \<notin> set docIds
             then (AList.update t (set_add contentId docIds) ix,
                   AList.update t (count_succ (map_of df t)) df)
             else (ix, df))"

definition searchableFields :: "content \<Rightarrow> (string \<times> string) list" where
  "searchableFields c =
     [(''title'', title c), (''description'', description c),
      (''headings'', join_sp (map h_text (headings c))),
      (''content'', join_sp (paragraphs c)),
      (''keywords'', join_sp (c_keywords c)),
      (''topics'', join_sp (topics c))]"

definition indexContent :: "runtime \<Rightarrow> engine \<Rightarrow> string \<Rightarrow> content \<Rightarrow> engine" where
  "indexContent rt e contentId c =
     (let store = AList.update contentId
            \<lparr>m_url = url c, m_title = title c, m_description = description c,
             m_qualityScore = qualityScore c, m_contentType = contentType c,
             m_publishDate = publishDate c, m_wordCount = wordCount c, m_topics = topics c\<rparr>
            (contentStore e);
          fields = searchableFields c;
          fts = map (\<lambda>(field, txt). (field, tokenizeText rt txt)) fields;
          allTerms = new_Set (concat (map snd fts));
          termFreq = foldl (\<lambda>tf (field, ts). foldl (add_term_freq (field_boost e field)) tf ts) [] fts;
          (ix, df) = foldl (index_term contentId) (invertedIndex e, documentFrequency e) allTerms
      in e\<lparr>contentStore := store,
           invertedIndex := ix,
           documentFrequency := df,
           termFrequency := AList.update contentId termFreq (termFrequency e),
           index := AList.update contentId
             \<lparr>fieldTerms = fts, allText = toLowerCase (join_sp (map snd fields)),
              terms = allTerms, termCount = length allTerms\<rparr> (index e),
           totalDocuments := totalDocuments e + 1\<rparr>)"

text \<open>\<^verbatim>\<open>clear\<close> empties the five tables and resets the counter.\<close>

definition clear :: "engine \<Rightarrow> engine" where
  "clear e = e\<lparr>index := [], invertedIndex := [], termFrequency := [], documentFrequency := [],
               contentStore := [], totalDocuments := 0\<rparr>"

subsection \<open>Search\<close>

record search_filters =
  f_contentType :: string
  f_minQuality :: real
  f_maxAge :: real
  f_minWordCount :: nat
  f_topics :: "string list"

text \<open>A limit, offset or filter that is missing is 0 or empty, which the code treats alike.\<close>

record search_options =
  o_limit :: nat
  o_offset :: nat
  o_filters :: search_filters

record search_result =
  r_url :: string
  r_title :: string
  r_description :: string
  r_contentType :: string
  r_qualityScore :: int
  r_wordCount :: nat
  r_publishDate :: string
  r_topics :: "string list"
  relevanceScore :: real

text \<open>The response of \<^verbatim>\<open>search\<close>, without the echoed query and the elapsed time.\<close>

record search_response =
  results :: "search_result list"
  total :: nat
  error :: "string option"

definition empty_response :: search_response where
  "empty_response = \<lparr>results = [], total = 0, error = None\<rparr>"

definition calculateStringSimilarity :: "string \<Rightarrow> string \<Rightarrow> real" where
  "calculateStringSimilarity str1 str2 =
     (if str1 = str2 then 1
      else if length str1 = 0 \<or> length str2 = 0 then 0
      else
        let longer = (if length str1 > length str2 then str1 else str2);
            shorter = (if length str1 > length str2 then str2 else str1);
            distance = length (filter (\<lambda>(a, b). a \<noteq> b) (zip longer shorter))
                       + (length longer - length shorter)
        in (real (length longer) - real distance) / real (length longer))"

definition findSimilarTerms :: "engine \<Rightarrow> string \<Rightarrow> string list" where
  "findSimilarTerms e t =
     filter (\<lambda>indexTerm. indexTerm \<noteq> t \<and> int (length indexTerm) \<ge> int (length t) - 1
                \<and> calculateStringSimilarity t indexTerm \<ge> 8 / 10)
       (map fst (invertedIndex e))"

definition add_postings :: "engine \<Rightarrow> string list \<Rightarrow> string \<Rightarrow> string list" where
  "add_postings e candidates t =
     (case map_of (invertedIndex e) t of
        None \<Rightarrow> candidates
      | Some docIds \<Rightarrow> foldl (\<lambda>cs docId. set_add docId cs) candidates docIds)"

definition getCandidateDocuments :: "engine \<Rightarrow> string list \<Rightarrow> string list" where
  "getCandidateDocuments e queryTerms =
     foldl (\<lambda>candidates t.
        let candidates = add_postings e candidates t
        in if enableFuzzySearch e \<and> length t > 3
           then foldl (add_postings e) candidates (findSimilarTerms e t)
           else candidates) [] queryTerms"

definition passesFilters :: "runtime \<Rightarrow> content_meta \<Rightarrow> search_filters \<Rightarrow> bool" where
  "passesFilters rt m f =
     (if f_contentType f \<noteq> [] \<and> m_contentType m \<noteq> f_contentType f then False
      else if f_minQuality f \<noteq> 0 \<and> real_of_int (m_qualityScore m) < f_minQuality f then False
      else if f_maxAge f \<noteq> 0 \<and> m_publishDate m \<noteq> [] \<and>
              (case parseDate rt (m_publishDate m) of
                 None \<Rightarrow> False
               | Some t \<Rightarrow> (now rt - t) / (1000 * 60 * 60 * 24) > f_maxAge f) then False
      else if f_minWordCount f \<noteq> 0 \<and> m_wordCount m < f_minWordCount f then False
      else if length (f_topics f) > 0 \<and> \<not> list_ex (\<lambda>topic. topic \<in> set (m_topics m)) (f_topics f)
        then False
      else True)"

text \<open>
  A score is \<open>Some x\<close> for a finite number. \<open>None\<close> stands for the two other values
  a score can take, NaN and minus infinity; added to or multiplied with finite numbers
  they stay what they are, and \<^verbatim>\<open>search\<close> drops a candidate whose score is not
  greater than 0, which covers both.
\<close>

definition num_add :: "real option \<Rightarrow> real option \<Rightarrow> real option" where
  "num_add a b = (case (a, b) of (Some x, Some y) \<Rightarrow> Some (x + y) | _ \<Rightarrow> None)"

definition calculateExactPhraseBonus :: "runtime \<Rightarrow> string \<Rightarrow> string \<Rightarrow> string + real" where
  "calculateExactPhraseBonus rt phrase txt =
     (if phrase = [] \<or> txt = [] then Inr 0
      else case regexMatches rt (toLowerCase phrase) (toLowerCase txt) of
        None \<Rightarrow> Inl ''Invalid regular expression''
      | Some matches \<Rightarrow> Inr (if matches > 0 then ln (1 + real matches) else 0))"

definition calculateFieldMatchBonus :: "string list \<Rightarrow> string list \<Rightarrow> real option \<Rightarrow> real option" where
  "calculateFieldMatchBonus queryTerms fts boostFactor =
     (if length fts = 0 then Some 0
      else
        let matches = length (filter (\<lambda>t. t \<in> set fts) queryTerms)
        in if matches > 0
           then map_option (\<lambda>b. (real matches / real (length queryTerms)) * b) boostFactor
           else Some 0)"

text \<open>
  The bonus is looked up in an object literal. For a content type that names a property
  every object inherits, the lookup gives that property instead of a number, and the sum
  is no longer a number.
\<close>

definition object_prototype_names :: "string list" where
  "object_prototype_names =
     [''constructor'', ''__defineGetter__'', ''__defineSetter__'', ''hasOwnProperty'',
      ''__lookupGetter__'', ''__lookupSetter__'', ''isPrototypeOf'', ''propertyIsEnumerable'',
      ''toString'', ''valueOf'', ''__proto__'', ''toLocaleString'']"

definition getContentTypeBonus :: "string \<Rightarrow> real option" where
  "getContentTypeBonus ct =
     (if ct \<in> set object_prototype_names then None
      else case map_of [(''article'', 2 / 10), (''blog-post'', 15 / 100), (''tutorial'', 25 / 100),
                        (''news-article'', 1 / 10), (''review'', 1 / 10), (''product-page'', 5 / 100),
                        (''recipe'', 15 / 100)] ct of
        None \<Rightarrow> Some 0 | Some b \<Rightarrow> Some b)"

text \<open>One step of the TF-IDF sum over the query terms.\<close>

definition tfidf_step :: "engine \<Rightarrow> (string \<times> real) list \<Rightarrow> real option \<Rightarrow> string \<Rightarrow> real option" where
  "tfidf_step e termFreq score t =
     (let tf = (case map_of termFreq t of None \<Rightarrow> 0 | Some f \<Rightarrow> f)
      in if tf > 0 then
           let df = (case map_of (documentFrequency e) t of
                       Some (Count n) \<Rightarrow> if n = 0 then 1 else n
                     | _ \<Rightarrow> 1)
           in if totalDocuments e = 0 then None
              else num_add score (Some (tf * ln (real (totalDocuments e) / real df)))
         else score)"

definition calculateRelevanceScore ::
  "runtime \<Rightarrow> engine \<Rightarrow> string \<Rightarrow> string list \<Rightarrow> index_entry \<Rightarrow> content_meta \<Rightarrow>
   string + real option" where
  "calculateRelevanceScore rt e contentId queryTerms indexData m =
     (case map_of (termFrequency e) contentId of
        None \<Rightarrow> Inr (Some 0)
      | Some termFreq \<Rightarrow>
          let score = foldl (tfidf_step e termFreq) (Some 0) queryTerms
          in case calculateExactPhraseBonus rt (join_sp queryTerms) (allText indexData) of
               Inl msg \<Rightarrow> Inl msg
             | Inr exactPhraseBonus \<Rightarrow>
                 let score = num_add score (Some (exactPhraseBonus * 5));
                     field = (\<lambda>name. case map_of (fieldTerms indexData) name of None \<Rightarrow> [] | Some ts \<Rightarrow> ts);
                     score = num_add score (calculateFieldMatchBonus queryTerms (field ''title'')
                               (map_of (boostFactors e) ''title''));
                     score = num_add score (calculateFieldMatchBonus queryTerms (field ''description'')
                               (map_of (boostFactors e) ''description''));
                     score = num_add score
                               (map_option (\<lambda>b. real_of_int (m_qualityScore m) * b)
                                  (map_of (boostFactors e) ''quality''));
                     score = (if m_publishDate m \<noteq> [] then
                                num_add score
                                  (map_option
                                     (\<lambda>t. max 0 ((365 - (now rt - t) / (1000 * 60 * 60 * 24)) / 365) * (1 / 10))
                                     (parseDate rt (m_publishDate m)))
                              else score);
                     score = num_add score (getContentTypeBonus (m_contentType m));
                     lengthNorm = ln (1 + real (if termCount indexData = 0 then 1 else termCount indexData))
                 in Inr (map_option (\<lambda>x. max (x / lengthNorm) 0) score))"

text \<open>
  The loop of \<^verbatim>\<open>search\<close> over the candidates; \<open>Inl\<close> is an exception, which
  leaves the loop.
\<close>

fun score_candidates ::
  "runtime \<Rightarrow> engine \<Rightarrow> string list \<Rightarrow> search_filters \<Rightarrow> string list \<Rightarrow>
   string + (real \<times> content_meta) list" where
  "score_candidates rt e queryTerms f [] = Inr []"
| "score_candidates rt e queryTerms f (contentId # rest) =
     (case (map_of (contentStore e) contentId, map_of (index e) contentId) of
        (Some m, Some indexData) \<Rightarrow>
          if passesFilters rt m f then
            (case calculateRelevanceScore rt e contentId queryTerms indexData m of
               Inl msg \<Rightarrow> Inl msg
             | Inr score \<Rightarrow>
                 (case score_candidates rt e queryTerms f rest of
                    Inl msg \<Rightarrow> Inl msg
                  | Inr scored \<Rightarrow>
                      (case score of
                         Some x \<Rightarrow> if x > 0 then Inr ((x, m) # scored) else Inr scored
                       | None \<Rightarrow> Inr scored)))
          else score_candidates rt e queryTerms f rest
      | _ \<Rightarrow> score_candidates rt e queryTerms f rest)"

definition to_result :: "real \<times> content_meta \<Rightarrow> search_result" where
  "to_result r =
     \<lparr>r_url = m_url (snd r), r_title = m_title (snd r), r_description = m_description (snd r),
      r_contentType = m_contentType (snd r), r_qualityScore = m_qualityScore (snd r),
      r_wordCount = m_wordCount (snd r), r_publishDate = m_publishDate (snd r),
      r_topics = m_topics (snd r),
      relevanceScore = real_of_int (math_round (fst r * 100)) / 100\<rparr>"

definition search :: "runtime \<Rightarrow> engine \<Rightarrow> string \<Rightarrow> search_options \<Rightarrow> search_response" where
  "search rt e query opts =
     (let limit = min (if o_limit opts = 0 then defaultLimit e else o_limit opts) (maxLimit e);
          offset = o_offset opts
      in if query = [] \<or> length query < minQueryLength e then empty_response
         else
           let queryTerms = tokenizeText rt (toLowerCase query);
               candidates = getCandidateDocuments e queryTerms
           in if length candidates = 0 then empty_response
              else case score_candidates rt e queryTerms (o_filters opts) candidates of
                Inl msg \<Rightarrow> \<lparr>results = [], total = 0, error = Some msg\<rparr>
              | Inr scoredResults \<Rightarrow>
                  let sorted = sort_key (\<lambda>r. - fst r) scoredResults;
                      paginatedResults = take limit (drop offset sorted)
                  in \<lparr>results = map to_result paginatedResults,
                      total = length scoredResults, error = None\<rparr>)"

subsection \<open>Export and import\<close>

record index_export =
  x_index :: "(string \<times> index_entry) list"
  x_invertedIndex :: "(string \<times> string list) list"
  x_termFrequency :: "(string \<times> (string \<times> real) list) list"
  x_documentFrequency :: "(string \<times> count) list"
  x_contentStore :: "(string \<times> content_meta) list"
  x_totalDocuments :: nat

definition exportIndex :: "engine \<Rightarrow> index_export" where
  "exportIndex e =
     \<lparr>x_index = index e,
      x_invertedIndex = map (\<lambda>(t, docIds). (t, docIds)) (invertedIndex e),
      x_termFrequency = map (\<lambda>(docId, termMap). (docId, termMap)) (termFrequency e),
      x_documentFrequency = documentFrequency e,
      x_contentStore = contentStore e,
      x_totalDocuments = totalDocuments e\<rparr>"

definition importIndex :: "engine \<Rightarrow> index_export \<Rightarrow> engine" where
  "importIndex e indexData =
     e\<lparr>index := new_Map (x_index indexData),
       invertedIndex := new_Map (map (\<lambda>(t, docIds). (t, new_Set docIds)) (x_invertedIndex indexData)),
       termFrequency := new_Map (map (\<lambda>(docId, termEntries). (docId, new_Map termEntries))
                                   (x_termFrequency indexData)),
       documentFrequency := new_Map (x_documentFrequency indexData),
       contentStore := new_Map (x_contentStore indexData),
       totalDocuments := x_totalDocuments indexData\<rparr>"

subsection \<open>Sessions\<close>

text \<open>A session of the engine: a sequence of calls on a newly constructed engine.\<close>

datatype engine_op = IndexContent string content | Clear

fun apply_op :: "runtime \<Rightarrow> engine \<Rightarrow> engine_op \<Rightarrow> engine" where
  "apply_op rt e (IndexContent contentId c) = indexContent rt e contentId c"
| "apply_op rt e Clear = clear e"

definition run_ops :: "runtime \<Rightarrow> engine \<Rightarrow> engine_op list \<Rightarrow> engine" where
  "run_ops rt e ops = foldl (apply_op rt) e ops"

text \<open>The calls made since the last \<open>Clear\<close>.\<close>

definition since_clear :: "engine_op list \<Rightarrow> engine_op list" where
  "since_clear ops = rev (takeWhile (\<lambda>op. op \<noteq> Clear) (rev ops))"

text \<open>The posting list of a term, and the terms of a document (\<open>allTerms\<close>, with repetitions).\<close>

definition docs_of :: "(string \<times> string list) list \<Rightarrow> string \<Rightarrow> string list" where
  "docs_of ix t = (case map_of ix t of None \<Rightarrow> [] | Some docIds \<Rightarrow> docIds)"

definition posting :: "engine \<Rightarrow> string \<Rightarrow> string list" where
  "posting e t = docs_of (invertedIndex e) t"

definition doc_terms :: "runtime \<Rightarrow> content \<Rightarrow> string list" where
  "doc_terms rt c = concat (map (\<lambda>f. tokenizeText rt (snd f)) (searchableFields c))"

subsection \<open>Invariants of the tables\<close>

text \<open>
  The inverted index and the document-frequency table agree: they have the same terms, and
  the entry of a term is the length of its posting list, which has no repetition.
\<close>

definition df_consistent :: "(string \<times> string list) list \<times> (string \<times> count) list \<Rightarrow> bool" where
  "df_consistent tables =
     (\<forall>t. map_of (snd tables) t = map_option (\<lambda>ds. Count (length ds)) (map_of (fst tables) t)
        \<and> distinct (docs_of (fst tables) t))"

definition engine_consistent :: "engine \<Rightarrow> bool" where
  "engine_consistent e = df_consistent (invertedIndex e, documentFrequency e)"

text \<open>No table holds a key twice, as is the case for every \<^verbatim>\<open>Map\<close>.\<close>

definition wf_engine :: "engine \<Rightarrow> bool" where
  "wf_engine e =
     (distinct (map fst (index e)) \<and> distinct (map fst (invertedIndex e))
      \<and> distinct (map fst (termFrequency e)) \<and> distinct (map fst (documentFrequency e))
      \<and> distinct (map fst (contentStore e))
      \<and> (\<forall>t ds. map_of (invertedIndex e) t = Some ds \<longrightarrow> distinct ds)
      \<and> (\<forall>d tm. map_of (termFrequency e) d = Some tm \<longrightarrow> distinct (map fst tm)))"

section \<open>UrlUtils\<close>

text \<open>
  \<^verbatim>\<open>normalize\<close> works on the \<^verbatim>\<open>URL\<close> class of the runtime. The class is
  modelled on the URLs
  \<^verbatim>\<open>scheme://host/path?query#fragment\<close> with scheme http or https in any letter
  case, a host of letters separated by single dots, a path of letters, digits and
  \<^verbatim>\<open>/ - _ ~\<close>, a query of letters, digits and \<^verbatim>\<open>- _ . * = &\<close> with at
  most one \<^verbatim>\<open>=\<close> between two \<^verbatim>\<open>&\<close>, and any fragment; path, query and
  fragment may be missing. On these the parser changes nothing
  but the letter case of scheme and host and an empty path, and the serializers encode
  nothing. Every other string is outside the model and gets \<open>None\<close>, the value that
  also stands for a string the parser rejects.
\<close>

record url_record =
  protocol :: string
  hostname :: string
  pathname :: string
  url_query :: "string option"
  url_fragment :: "string option"

definition is_alpha :: "char \<Rightarrow> bool" where
  "is_alpha c = (c \<in> set (upper_chars @ lower_chars))"

definition is_path_char :: "char \<Rightarrow> bool" where
  "is_path_char c = (is_alpha c \<or> c \<in> set (digit_chars @ ''/-_~''))"

definition is_query_char :: "char \<Rightarrow> bool" where
  "is_query_char c = (is_alpha c \<or> c \<in> set (digit_chars @ ''-_.*=&''))"

text \<open>\<^verbatim>\<open>s.split(c)\<close>: every occurrence of the character separates.\<close>

fun split_on :: "char \<Rightarrow> string \<Rightarrow> string list" where
  "split_on c [] = [[]]"
| "split_on c (x # xs) =
     (if x = c then [] # split_on c xs
      else (case split_on c xs of [] \<Rightarrow> [[x]] | w # ws \<Rightarrow> (x # w) # ws))"

definition valid_host :: "string \<Rightarrow> bool" where
  "valid_host h = list_all (\<lambda>label. label \<noteq> [] \<and> list_all is_alpha label)
                    (split_on (CHR ''.'') h)"

text \<open>The part of a string before the first character of a set, and the rest from it on.\<close>

definition before :: "string \<Rightarrow> string \<Rightarrow> string" where
  "before stops s = takeWhile (\<lambda>c. c \<notin> set stops) s"

definition from_on :: "string \<Rightarrow> string \<Rightarrow> string" where
  "from_on stops s = dropWhile (\<lambda>c. c \<notin> set stops) s"

definition URL :: "string \<Rightarrow> url_record option" where
  "URL s =
     (let scheme = toLowerCase (before '':'' s);
          rest = from_on '':'' s
      in if (scheme = ''http'' \<or> scheme = ''https'') \<and> startsWith rest ''://'' then
           let rest = drop 3 rest;
               host = before ''/?#'' rest;
               rest = from_on ''/?#'' rest;
               path = before ''?#'' rest;
               rest = from_on ''?#'' rest;
               q = (if startsWith rest ''?'' then Some (before ''#'' (drop 1 rest)) else None);
               rest = from_on ''#'' rest;
               frag = (if startsWith rest ''#'' then Some (drop 1 rest) else None)
           in if valid_host host \<and> list_all is_path_char path
                 \<and> list_all is_query_char (case q of None \<Rightarrow> [] | Some qs \<Rightarrow> qs)
                 \<and> list_all (\<lambda>p. count_list p (CHR ''='') \<le> 1)
                       (split_on (CHR ''&'') (case q of None \<Rightarrow> [] | Some qs \<Rightarrow> qs))
              then Some \<lparr>protocol = scheme @ '':'', hostname = toLowerCase host,
                         pathname = (if path = [] then ''/'' else path),
                         url_query = q, url_fragment = frag\<rparr>
              else None
         else None)"

text \<open>\<^verbatim>\<open>url.toString()\<close>.\<close>

definition href :: "url_record \<Rightarrow> string" where
  "href u = protocol u @ ''//'' @ hostname u @ pathname u
            @ (case url_query u of None \<Rightarrow> [] | Some q \<Rightarrow> ''?'' @ q)
            @ (case url_fragment u of None \<Rightarrow> [] | Some f \<Rightarrow> ''#'' @ f)"

text \<open>
  \<^verbatim>\<open>url.searchParams\<close>: the list of name-value pairs of the query, and its
  serialization, written back to the URL after every change of the list (an empty list
  removes the query).
\<close>

definition parse_params :: "string option \<Rightarrow> (string \<times> string) list" where
  "parse_params q =
     map (\<lambda>p. (before ''='' p, drop 1 (from_on ''='' p)))
       (filter (\<lambda>p. p \<noteq> [])
          (split_on (CHR ''&'') (case q of None \<Rightarrow> [] | Some qs \<Rightarrow> qs)))"

fun join_amp :: "string list \<Rightarrow> string" where
  "join_amp [] = []"
| "join_amp [p] = p"
| "join_amp (p # q # ps) = p @ ''&'' @ join_amp (q # ps)"

definition serialize_params :: "(string \<times> string) list \<Rightarrow> string option" where
  "serialize_params ps =
     (if ps = [] then None else Some (join_amp (map (\<lambda>(n, v). n @ ''='' @ v) ps)))"

definition searchParams_delete :: "string \<Rightarrow> url_record \<Rightarrow> url_record" where
  "searchParams_delete name u =
     u\<lparr>url_query := serialize_params (filter (\<lambda>p. fst p \<noteq> name) (parse_params (url_query u)))\<rparr>"

text \<open>Names are compared by their character codes; the sort is stable.\<close>

fun str_le :: "string \<Rightarrow> string \<Rightarrow> bool" where
  "str_le [] t = True"
| "str_le (c # s) [] = False"
| "str_le (c # s) (d # t) =
     ((of_char c :: nat) < of_char d \<or> (c = d \<and> str_le s t))"

fun insert_param :: "string \<times> string \<Rightarrow> (string \<times> string) list \<Rightarrow> (string \<times> string) list" where
  "insert_param p [] = [p]"
| "insert_param p (q # qs) =
     (if str_le (fst p) (fst q) then p # q # qs else q # insert_param p qs)"

definition sort_params :: "(string \<times> string) list \<Rightarrow> (string \<times> string) list" where
  "sort_params ps = foldr insert_param ps []"

definition searchParams_sort :: "url_record \<Rightarrow> url_record" where
  "searchParams_sort u = u\<lparr>url_query := serialize_params (sort_params (parse_params (url_query u)))\<rparr>"

definition trackingParams :: "string list" where
  "trackingParams = [''utm_source'', ''utm_medium'', ''utm_campaign'', ''utm_term'', ''utm_content'',
                     ''fbclid'', ''gclid'', ''ref'', ''source'']"

text \<open>\<^verbatim>\<open>UrlUtils.normalize\<close>; \<open>None\<close> is the \<^verbatim>\<open>null\<close> of the catch branch.\<close>

definition normalizeUrl :: "string \<Rightarrow> string option" where
  "normalizeUrl s =
     (case URL s of
        None \<Rightarrow> None
      | Some urlObj \<Rightarrow>
          let urlObj = urlObj\<lparr>url_fragment := None\<rparr>;
              urlObj = foldl (\<lambda>u param. searchParams_delete param u) urlObj trackingParams;
              urlObj = searchParams_sort urlObj;
              urlObj = (if pathname urlObj = [] then urlObj\<lparr>pathname := ''/''\<rparr> else urlObj)
          in Some (toLowerCase (href urlObj)))"

section \<open>WebCrawlerAI\<close>

text \<open>
  The scheduler, for one caller: every \<^verbatim>\<open>await\<close> is run to its end before
  the next statement. What lies outside the scheduler is a parameter: the URL normalizer
  (the theorems below hold for any, the model above included), the outcome of the robots
  check, the outcome of loading and extracting a page (a function of the URL and of the
  number of earlier loads of that URL), the link analyzer's ranking and the hash that
  names a stored document.
\<close>

datatype fetch_result = Fetched content string | Failed string

record world =
  w_normalize :: "string \<Rightarrow> string option"
  robotsAllowed :: "string \<Rightarrow> bool"
  goto :: "string \<Rightarrow> nat \<Rightarrow> fetch_result"
  prioritizeLinks :: "link list \<Rightarrow> string \<Rightarrow> (link \<times> int) list"
  generateContentId :: "string \<Rightarrow> string"
  w_runtime :: runtime

record pending_entry =
  p_depth :: int
  p_priority :: int
  p_parent :: "string option"

datatype event = PageCrawled string | CrawlError string string | CrawlCompleted | Wait int

text \<open>
  The state of the crawler. \<open>fetchLog\<close> records every page load, \<open>events\<close> every
  emitted event and every politeness or backoff wait, in order. The link graph, the word
  and quality statistics and the robots cache, which the scheduling never reads, are left
  out.
\<close>

record crawler =
  maxDepth :: int
  maxActiveCrawls :: int
  delay :: int
  respectRobots :: bool
  crawledUrls :: "string list"
  pendingUrls :: "(string \<times> pending_entry) list"
  failedUrls :: "string list"
  activeCrawls :: int
  cw_contentStore :: "(string \<times> content) list"
  searchEngine :: engine
  totalRequested :: nat
  totalCompleted :: nat
  totalFailed :: nat
  fetchLog :: "string list"
  events :: "event list"

text \<open>
  The constructor: the \<^verbatim>\<open>crawler\<close> section of the configuration, overridden by
  the options; a missing number and the number 0 get the default (\<^verbatim>\<open>||\<close>).
\<close>

record crawler_options =
  opt_maxConcurrency :: "int option"
  opt_maxDepth :: "int option"
  opt_delay :: "int option"
  opt_respectRobots :: "bool option"

definition merge_opt :: "'a option \<Rightarrow> 'a option \<Rightarrow> 'a option" where
  "merge_opt base over = (case over of None \<Rightarrow> base | Some v \<Rightarrow> Some v)"

definition int_or :: "int option \<Rightarrow> int \<Rightarrow> int" where
  "int_or v d = (case v of None \<Rightarrow> d | Some n \<Rightarrow> if n = 0 then d else n)"

definition WebCrawlerAI :: "crawler_options \<Rightarrow> search_config \<Rightarrow> crawler_options \<Rightarrow> crawler" where
  "WebCrawlerAI config_crawler config_search options =
     \<lparr>maxDepth = int_or (merge_opt (opt_maxDepth config_crawler) (opt_maxDepth options)) 3,
      maxActiveCrawls =
        int_or (merge_opt (opt_maxConcurrency config_crawler) (opt_maxConcurrency options)) 5,
      delay = int_or (merge_opt (opt_delay config_crawler) (opt_delay options)) 1000,
      respectRobots =
        (merge_opt (opt_respectRobots config_crawler) (opt_respectRobots options) \<noteq> Some False),
      crawledUrls = [], pendingUrls = [], failedUrls = [], activeCrawls = 0,
      cw_contentStore = [], searchEngine = SearchEngine config_search,
      totalRequested = 0, totalCompleted = 0, totalFailed = 0, fetchLog = [], events = []\<rparr>"

text \<open>The \<^verbatim>\<open>crawler\<close> section of \<^verbatim>\<open>config/default.js\<close> with no environment variable set.\<close>

definition default_crawler_config :: crawler_options where
  "default_crawler_config =
     \<lparr>opt_maxConcurrency = Some 5, opt_maxDepth = Some 3, opt_delay = Some 1000,
      opt_respectRobots = Some True\<rparr>"

definition no_options :: crawler_options where
  "no_options = \<lparr>opt_maxConcurrency = None, opt_maxDepth = None, opt_delay = None,
                  opt_respectRobots = None\<rparr>"

definition canCrawl :: "world \<Rightarrow> crawler \<Rightarrow> string \<Rightarrow> bool" where
  "canCrawl w c u = (if \<not> respectRobots c then True else robotsAllowed w u)"

text \<open>
  \<^verbatim>\<open>waitForSlot\<close>: with one caller nothing frees a slot during the wait, so a
  full crawler waits for ever (\<open>None\<close>).
\<close>

definition waitForSlot :: "crawler \<Rightarrow> crawler option" where
  "waitForSlot c =
     (if activeCrawls c \<ge> maxActiveCrawls c then None
      else if delay c > 0 then Some (c\<lparr>events := events c @ [Wait (delay c)]\<rparr>)
      else Some c)"

definition scheduleChildUrls :: "world \<Rightarrow> crawler \<Rightarrow> link list \<Rightarrow> string \<Rightarrow> int \<Rightarrow> crawler" where
  "scheduleChildUrls w c ls parentUrl depth =
     (let prioritizedLinks = prioritizeLinks w ls parentUrl;
          topLinks = take (min 5 (length prioritizedLinks)) prioritizedLinks
      in c\<lparr>pendingUrls :=
           foldl (\<lambda>pending (l, priority).
                    if l_url l \<notin> set (crawledUrls c) \<and> \<not> map_has pending (l_url l)
                    then AList.update (l_url l)
                           \<lparr>p_depth = depth, p_priority = priority, p_parent = Some parentUrl\<rparr> pending
                    else pending)
             (pendingUrls c) topLinks\<rparr>)"

definition transient :: "string \<Rightarrow> bool" where
  "transient msg = (str_includes msg ''Protocol error'' \<or> str_includes msg ''Connection closed''
                    \<or> str_includes msg ''Target closed'')"

text \<open>
  The parts of \<^verbatim>\<open>crawlUrl\<close>. \<open>start_crawl\<close>: the slot is taken, the URL
  enters the crawled set and the page is requested. \<open>process_page\<close>: the rest of the
  \<^verbatim>\<open>try\<close> block after a page was loaded and extracted (the document is
  completed, stored and indexed, its links are scheduled), with the \<^verbatim>\<open>finally\<close>
  block. \<open>mark_failed\<close>: the head of the \<^verbatim>\<open>catch\<close>
  block.
\<close>

definition start_crawl :: "crawler \<Rightarrow> string \<Rightarrow> crawler" where
  "start_crawl c normalizedUrl =
     c\<lparr>activeCrawls := activeCrawls c + 1,
       crawledUrls := set_add normalizedUrl (crawledUrls c),
       totalRequested := totalRequested c + 1,
       fetchLog := fetchLog c @ [normalizedUrl]\<rparr>"

definition finish_page :: "world \<Rightarrow> content \<Rightarrow> string \<Rightarrow> content" where
  "finish_page w page pageTitle =
     (let page = page\<lparr>title := (if title page \<noteq> [] then title page else pageTitle)\<rparr>
      in page\<lparr>qualityScore := calculate (w_runtime w) (Some page)\<rparr>)"

definition store_page :: "world \<Rightarrow> crawler \<Rightarrow> string \<Rightarrow> content \<Rightarrow> crawler" where
  "store_page w c normalizedUrl page =
     (let contentId = generateContentId w normalizedUrl
      in c\<lparr>cw_contentStore := AList.update contentId page (cw_contentStore c),
           searchEngine := indexContent (w_runtime w) (searchEngine c) contentId page,
           events := events c @ [PageCrawled normalizedUrl]\<rparr>)"

definition process_page ::
  "world \<Rightarrow> crawler \<Rightarrow> string \<Rightarrow> int \<Rightarrow> content \<Rightarrow> string \<Rightarrow> content \<times> crawler" where
  "process_page w c normalizedUrl depth page pageTitle =
     (let page = finish_page w page pageTitle;
          c = store_page w c normalizedUrl page;
          c = (if depth < maxDepth c
               then scheduleChildUrls w c (links page) normalizedUrl (depth + 1)
               else c);
          c = c\<lparr>totalCompleted := totalCompleted c + 1\<rparr>
      in (page, c\<lparr>activeCrawls := activeCrawls c - 1\<rparr>))"

definition mark_failed :: "crawler \<Rightarrow> string \<Rightarrow> crawler" where
  "mark_failed c normalizedUrl =
     c\<lparr>failedUrls := set_add normalizedUrl (failedUrls c), totalFailed := totalFailed c + 1\<rparr>"

text \<open>
  \<^verbatim>\<open>crawlUrl\<close>. The result is \<open>None\<close> when the call waits for ever, and else the
  returned document (or \<^verbatim>\<open>null\<close>) with the new state. In the retry branch the
  counter of active crawls is lowered twice before the recursive call does anything with
  it: once in the branch, and once by the \<^verbatim>\<open>finally\<close> block, which runs when
  the recursive call reaches its first \<^verbatim>\<open>await\<close>.
\<close>

function crawlUrl ::
  "world \<Rightarrow> crawler \<Rightarrow> string \<Rightarrow> int \<Rightarrow> int \<Rightarrow> nat \<Rightarrow> (content option \<times> crawler) option" where
  "crawlUrl w c u depth priority retryCount =
     (case w_normalize w u of
        None \<Rightarrow> Some (None, c)
      | Some normalizedUrl \<Rightarrow>
          if normalizedUrl = [] \<or> normalizedUrl \<in> set (crawledUrls c)
             \<or> normalizedUrl \<in> set (failedUrls c) \<or> depth > maxDepth c
          then Some (None, c)
          else if \<not> canCrawl w c normalizedUrl then Some (None, c)
          else case waitForSlot c of
            None \<Rightarrow> None
          | Some c1 \<Rightarrow>
              (case goto w normalizedUrl (count_list (fetchLog c1) normalizedUrl) of
                 Fetched page pageTitle \<Rightarrow>
                   (case process_page w (start_crawl c1 normalizedUrl) normalizedUrl depth page pageTitle of
                      (page, c2) \<Rightarrow> Some (Some page, c2))
               | Failed msg \<Rightarrow>
                   let c2 = mark_failed (start_crawl c1 normalizedUrl) normalizedUrl
                   in if retryCount < 2 \<and> transient msg then
                        crawlUrl w (c2\<lparr>activeCrawls := activeCrawls c2 - 2,
                                       events := events c2 @ [Wait 2000]\<rparr>)
                          u depth priority (retryCount + 1)
                      else Some (None, c2\<lparr>events := events c2 @ [CrawlError normalizedUrl msg],
                                          activeCrawls := activeCrawls c2 - 1\<rparr>)))"
  by pat_completeness auto
termination
  by (relation "measure (\<lambda>(w, c, u, depth, priority, retryCount). 2 - retryCount)") auto

declare crawlUrl.simps [simp del]

text \<open>\<^verbatim>\<open>getNextUrl\<close>: the first entry of the pending map, stably sorted by falling priority.\<close>

definition getNextUrl :: "crawler \<Rightarrow> (string \<times> pending_entry) option" where
  "getNextUrl c =
     (if length (pendingUrls c) = 0 then None
      else case sort_key (\<lambda>e. - p_priority (snd e)) (pendingUrls c) of
        [] \<Rightarrow> None
      | e # sortedEntries \<Rightarrow> Some e)"

record crawl_stats =
  totalPages :: nat
  totalUrls :: nat
  st_totalFailed :: nat
  st_pendingUrls :: nat

definition getStats :: "crawler \<Rightarrow> crawl_stats" where
  "getStats c = \<lparr>totalPages = length (cw_contentStore c), totalUrls = length (crawledUrls c),
                  st_totalFailed = totalFailed c, st_pendingUrls = length (pendingUrls c)\<rparr>"

subsection \<open>The batch loop\<close>

text \<open>
  The loop of \<^verbatim>\<open>crawlBatch\<close> ends: an entry of the frontier at depth \<open>d\<close>
  weighs \<open>6 ^ (maxDepth - d)\<close>, one round removes an entry and adds at most five at
  the next depth, and only when the removed one is below the depth limit, so the weight
  of the frontier falls in every round.
\<close>

definition entry_weight :: "int \<Rightarrow> pending_entry \<Rightarrow> nat" where
  "entry_weight md e = 6 ^ nat (md - p_depth e)"

definition frontier_weight :: "int \<Rightarrow> (string \<times> pending_entry) list \<Rightarrow> nat" where
  "frontier_weight md pending = sum_list (map (\<lambda>p. entry_weight md (snd p)) pending)"

lemma update_fresh': "\<not> map_has m k \<Longrightarrow> AList.update k v m = m @ [(k, v)]"
  by (induction m) (auto simp: map_has_def)

lemma frontier_weight_schedule:
  "frontier_weight md
     (foldl (\<lambda>pending (l, priority).
                if l_url l \<notin> set cr \<and> \<not> map_has pending (l_url l)
                then AList.update (l_url l)
                       \<lparr>p_depth = depth, p_priority = priority, p_parent = par\<rparr> pending
                else pending) pending tops)
   \<le> frontier_weight md pending + length tops * 6 ^ nat (md - depth)"
proof (induction tops arbitrary: pending)
  case Nil
  then show ?case by simp
next
  case (Cons x tops)
  obtain l pr where x: "x = (l, pr)" by (cases x)
  let ?p' = "if l_url l \<notin> set cr \<and> \<not> map_has pending (l_url l)
             then AList.update (l_url l) \<lparr>p_depth = depth, p_priority = pr, p_parent = par\<rparr> pending
             else pending"
  have step: "frontier_weight md ?p' \<le> frontier_weight md pending + 6 ^ nat (md - depth)"
    by (simp add: update_fresh' frontier_weight_def entry_weight_def)
  show ?case
    using Cons.IH[of ?p'] step by (simp add: x)
qed

lemma scheduleChildUrls_weight:
  "frontier_weight md (pendingUrls (scheduleChildUrls w c ls par depth))
     \<le> frontier_weight md (pendingUrls c) + 5 * 6 ^ nat (md - depth)"
proof -
  define tops where "tops = take (min 5 (length (prioritizeLinks w ls par))) (prioritizeLinks w ls par)"
  have "length tops \<le> 5" by (simp add: tops_def)
  then have le: "length tops * 6 ^ nat (md - depth) \<le> 5 * (6::nat) ^ nat (md - depth)"
    by (rule mult_le_mono1)
  have "pendingUrls (scheduleChildUrls w c ls par depth) =
     foldl (\<lambda>pending (l, priority).
                if l_url l \<notin> set (crawledUrls c) \<and> \<not> map_has pending (l_url l)
                then AList.update (l_url l)
                       \<lparr>p_depth = depth, p_priority = priority, p_parent = Some par\<rparr> pending
                else pending) (pendingUrls c) tops"
    by (simp add: scheduleChildUrls_def Let_def tops_def)
  then have "frontier_weight md (pendingUrls (scheduleChildUrls w c ls par depth))
      \<le> frontier_weight md (pendingUrls c) + length tops * 6 ^ nat (md - depth)"
    using frontier_weight_schedule[of md "crawledUrls c" depth "Some par" "pendingUrls c" tops]
    by simp
  also have "\<dots> \<le> frontier_weight md (pendingUrls c) + 5 * 6 ^ nat (md - depth)"
    using le by simp
  finally show ?thesis .
qed

lemma scheduleChildUrls_frame:
  "maxDepth (scheduleChildUrls w c ls par depth) = maxDepth c"
  "crawledUrls (scheduleChildUrls w c ls par depth) = crawledUrls c"
  "failedUrls (scheduleChildUrls w c ls par depth) = failedUrls c"
  "fetchLog (scheduleChildUrls w c ls par depth) = fetchLog c"
  "activeCrawls (scheduleChildUrls w c ls par depth) = activeCrawls c"
  "events (scheduleChildUrls w c ls par depth) = events c"
  "cw_contentStore (scheduleChildUrls w c ls par depth) = cw_contentStore c"
  "maxActiveCrawls (scheduleChildUrls w c ls par depth) = maxActiveCrawls c"
  "delay (scheduleChildUrls w c ls par depth) = delay c"
  "respectRobots (scheduleChildUrls w c ls par depth) = respectRobots c"
  by (simp_all add: scheduleChildUrls_def Let_def)

lemma waitForSlot_frame:
  assumes "waitForSlot c = Some c1"
  shows "maxDepth c1 = maxDepth c" "pendingUrls c1 = pendingUrls c" "crawledUrls c1 = crawledUrls c"
    "failedUrls c1 = failedUrls c" "fetchLog c1 = fetchLog c" "activeCrawls c1 = activeCrawls c"
    "cw_contentStore c1 = cw_contentStore c" "maxActiveCrawls c1 = maxActiveCrawls c"
    "delay c1 = delay c" "respectRobots c1 = respectRobots c"
  using assms by (auto simp: waitForSlot_def split: if_splits)

lemma start_crawl_frame:
  "maxDepth (start_crawl c n) = maxDepth c" "pendingUrls (start_crawl c n) = pendingUrls c"
  "crawledUrls (start_crawl c n) = set_add n (crawledUrls c)"
  "failedUrls (start_crawl c n) = failedUrls c" "fetchLog (start_crawl c n) = fetchLog c @ [n]"
  "activeCrawls (start_crawl c n) = activeCrawls c + 1"
  "cw_contentStore (start_crawl c n) = cw_contentStore c"
  "maxActiveCrawls (start_crawl c n) = maxActiveCrawls c"
  "events (start_crawl c n) = events c"
  by (simp_all add: start_crawl_def)

lemma mark_failed_frame:
  "maxDepth (mark_failed c n) = maxDepth c" "pendingUrls (mark_failed c n) = pendingUrls c"
  "crawledUrls (mark_failed c n) = crawledUrls c"
  "failedUrls (mark_failed c n) = set_add n (failedUrls c)" "fetchLog (mark_failed c n) = fetchLog c"
  "activeCrawls (mark_failed c n) = activeCrawls c"
  "cw_contentStore (mark_failed c n) = cw_contentStore c"
  "maxActiveCrawls (mark_failed c n) = maxActiveCrawls c"
  "events (mark_failed c n) = events c"
  by (simp_all add: mark_failed_def)

lemma store_page_frame:
  "maxDepth (store_page w c n page) = maxDepth c" "pendingUrls (store_page w c n page) = pendingUrls c"
  "crawledUrls (store_page w c n page) = crawledUrls c"
  "failedUrls (store_page w c n page) = failedUrls c" "fetchLog (store_page w c n page) = fetchLog c"
  "activeCrawls (store_page w c n page) = activeCrawls c"
  "maxActiveCrawls (store_page w c n page) = maxActiveCrawls c"
  "events (store_page w c n page) = events c @ [PageCrawled n]"
  by (simp_all add: store_page_def Let_def)

lemma process_page_frame:
  assumes "process_page w c n depth page pt = (pg, c')"
  shows "maxDepth c' = maxDepth c" "crawledUrls c' = crawledUrls c" "failedUrls c' = failedUrls c"
    "fetchLog c' = fetchLog c" "activeCrawls c' = activeCrawls c - 1"
    "maxActiveCrawls c' = maxActiveCrawls c"
    "events c' = events c @ [PageCrawled n]"
  using assms
  by (auto simp: process_page_def Let_def scheduleChildUrls_frame store_page_frame split: if_splits)

lemma process_page_pending:
  assumes "process_page w c n depth page pt = (pg, c')"
  shows "pendingUrls c' =
     (if depth < maxDepth c
      then pendingUrls (scheduleChildUrls w (store_page w c n (finish_page w page pt))
             (links (finish_page w page pt)) n (depth + 1))
      else pendingUrls c)"
  using assms by (auto simp: process_page_def Let_def store_page_frame)

lemma process_page_weight:
  assumes "process_page w c n depth page pt = (pg, c')"
  shows "frontier_weight (maxDepth c) (pendingUrls c') \<le>
     frontier_weight (maxDepth c) (pendingUrls c)
       + (if depth < maxDepth c then 5 * 6 ^ nat (maxDepth c - (depth + 1)) else 0)"
  using scheduleChildUrls_weight[of "maxDepth c" w "store_page w c n (finish_page w page pt)"
      "links (finish_page w page pt)" n "depth + 1"]
  by (simp add: process_page_pending[OF assms] store_page_frame)

lemma crawlUrl_cases [consumes 1, case_names skip fetched failed retry]:
  assumes "crawlUrl w c u depth priority retryCount = Some (r, c')"
  obtains "r = None" "c' = c"
  | n c1 page pt pg where "w_normalize w u = Some n" "n \<noteq> []" "n \<notin> set (crawledUrls c)"
      "n \<notin> set (failedUrls c)" "depth \<le> maxDepth c" "canCrawl w c n"
      "waitForSlot c = Some c1"
      "goto w n (count_list (fetchLog c1) n) = Fetched page pt"
      "process_page w (start_crawl c1 n) n depth page pt = (pg, c')" "r = Some pg"
  | n c1 msg where "w_normalize w u = Some n" "n \<noteq> []" "n \<notin> set (crawledUrls c)"
      "n \<notin> set (failedUrls c)" "depth \<le> maxDepth c" "canCrawl w c n"
      "waitForSlot c = Some c1"
      "goto w n (count_list (fetchLog c1) n) = Failed msg"
      "\<not> (retryCount < 2 \<and> transient msg)" "r = None"
      "c' = (mark_failed (start_crawl c1 n) n)\<lparr>events := events (mark_failed (start_crawl c1 n) n) @ [CrawlError n msg],
             activeCrawls := activeCrawls (mark_failed (start_crawl c1 n) n) - 1\<rparr>"
  | n c1 msg where "w_normalize w u = Some n" "n \<noteq> []" "n \<notin> set (crawledUrls c)"
      "n \<notin> set (failedUrls c)" "depth \<le> maxDepth c" "canCrawl w c n"
      "waitForSlot c = Some c1"
      "goto w n (count_list (fetchLog c1) n) = Failed msg"
      "retryCount < 2" "transient msg"
      "crawlUrl w ((mark_failed (start_crawl c1 n) n)\<lparr>activeCrawls := activeCrawls (mark_failed (start_crawl c1 n) n) - 2,
             events := events (mark_failed (start_crawl c1 n) n) @ [Wait 2000]\<rparr>) u depth priority (retryCount + 1) = Some (r, c')"
proof (cases "w_normalize w u")
  case None
  then show ?thesis using assms that(1) by (simp add: crawlUrl.simps[of w c u])
next
  case (Some n)
  note n = Some
  show ?thesis
  proof (cases "n = [] \<or> n \<in> set (crawledUrls c) \<or> n \<in> set (failedUrls c) \<or> depth > maxDepth c \<or> \<not> canCrawl w c n")
    case True
    then show ?thesis using assms that(1) n
      by (auto simp del: crawlUrl.simps simp: crawlUrl.simps[of w c u] split: if_splits)
  next
    case False
    note g = False
    show ?thesis
    proof (cases "waitForSlot c")
      case None
      then show ?thesis using assms n g by (simp del: crawlUrl.simps add: crawlUrl.simps[of w c u])
    next
      case (Some c1)
      note c1 = Some
      show ?thesis
      proof (cases "goto w n (count_list (fetchLog c1) n)")
        case (Fetched page pt)
        obtain pg c2 where pp: "process_page w (start_crawl c1 n) n depth page pt = (pg, c2)"
          by (cases "process_page w (start_crawl c1 n) n depth page pt")
        have "r = Some pg" "c' = c2"
          using assms n g c1 Fetched pp by (simp_all del: crawlUrl.simps add: crawlUrl.simps[of w c u])
        then show ?thesis using that(2)[of n c1 page pt pg] n g c1 Fetched pp by auto
      next
        case (Failed msg)
        show ?thesis
        proof (cases "retryCount < 2 \<and> transient msg")
          case True
          then show ?thesis
            using assms n g c1 Failed that(4)[of n c1 msg]
            by (auto simp del: crawlUrl.simps simp add: crawlUrl.simps[of w c u] Let_def split: if_splits)
        next
          case False
          then show ?thesis
            using assms n g c1 Failed that(3)[of n c1 msg]
            by (auto simp del: crawlUrl.simps simp add: crawlUrl.simps[of w c u] Let_def split: if_splits)
        qed
      qed
    qed
  qed
qed


lemma crawlUrl_induct [consumes 1, case_names skip fetched failed retry]:
  assumes run: "crawlUrl w c u depth priority retryCount = Some (r, c')"
    and skip: "\<And>c. P c None c"
    and fetched: "\<And>c n c1 page pt pg c'.
        \<lbrakk>w_normalize w u = Some n; n \<noteq> []; n \<notin> set (crawledUrls c); n \<notin> set (failedUrls c);
         depth \<le> maxDepth c; canCrawl w c n; waitForSlot c = Some c1;
         goto w n (count_list (fetchLog c1) n) = Fetched page pt;
         process_page w (start_crawl c1 n) n depth page pt = (pg, c')\<rbrakk> \<Longrightarrow> P c (Some pg) c'"
    and failed: "\<And>c n c1 msg.
        \<lbrakk>w_normalize w u = Some n; n \<noteq> []; n \<notin> set (crawledUrls c); n \<notin> set (failedUrls c);
         depth \<le> maxDepth c; canCrawl w c n; waitForSlot c = Some c1;
         goto w n (count_list (fetchLog c1) n) = Failed msg\<rbrakk>
        \<Longrightarrow> P c None ((mark_failed (start_crawl c1 n) n)\<lparr>events := events (mark_failed (start_crawl c1 n) n) @ [CrawlError n msg],
             activeCrawls := activeCrawls (mark_failed (start_crawl c1 n) n) - 1\<rparr>)"
    and retry: "\<And>c n c1 msg r c'.
        \<lbrakk>w_normalize w u = Some n; n \<noteq> []; n \<notin> set (crawledUrls c); n \<notin> set (failedUrls c);
         depth \<le> maxDepth c; canCrawl w c n; waitForSlot c = Some c1;
         goto w n (count_list (fetchLog c1) n) = Failed msg; transient msg;
         P ((mark_failed (start_crawl c1 n) n)\<lparr>activeCrawls := activeCrawls (mark_failed (start_crawl c1 n) n) - 2,
             events := events (mark_failed (start_crawl c1 n) n) @ [Wait 2000]\<rparr>) r c'\<rbrakk>
        \<Longrightarrow> P c r c'"
  shows "P c r c'"
  using run
proof (induction k \<equiv> "2 - retryCount" arbitrary: c retryCount rule: less_induct)
  case less
  from less.prems show ?case
  proof (cases rule: crawlUrl_cases)
    case skip
    then show ?thesis using assms(2) by simp
  next
    case (fetched n c1 page pt pg)
    then show ?thesis using assms(3)[of n c c1 page pt pg c'] by simp
  next
    case (failed n c1 msg)
    then show ?thesis using assms(4)[of n c c1 msg] by simp
  next
    case (retry n c1 msg)
    have "2 - (retryCount + 1) < 2 - retryCount" using retry(9) by simp
    from less.hyps[OF this retry(11)] retry show ?thesis
      using assms(5)[of n c c1 msg r c'] by simp
  qed
qed

lemma crawlUrl_maxDepth:
  assumes "crawlUrl w c u depth priority retryCount = Some (r, c')"
  shows "maxDepth c' = maxDepth c"
  using assms
proof (induction rule: crawlUrl_induct)
  case (skip c)
  then show ?case by simp
next
  case (fetched c n c1 page pt pg c')
  then show ?case
    by (simp add: process_page_frame(1)[OF fetched(9)] start_crawl_frame waitForSlot_frame(1)[OF fetched(7)])
next
  case (failed c n c1 msg)
  then show ?case
    by (simp add: mark_failed_frame start_crawl_frame waitForSlot_frame(1)[OF failed(7)])
next
  case (retry c n c1 msg r c')
  then show ?case
    by (simp add: mark_failed_frame start_crawl_frame waitForSlot_frame(1)[OF retry(7)])
qed

lemma crawlUrl_weight:
  assumes "crawlUrl w c u depth priority retryCount = Some (r, c')"
  shows "frontier_weight (maxDepth c) (pendingUrls c') \<le>
     frontier_weight (maxDepth c) (pendingUrls c)
       + (if depth < maxDepth c then 5 * 6 ^ nat (maxDepth c - (depth + 1)) else 0)"
  using assms
proof (induction rule: crawlUrl_induct)
  case (skip c)
  then show ?case by simp
next
  case (fetched c n c1 page pt pg c')
  show ?case
    using process_page_weight[OF fetched(9)]
    by (simp add: start_crawl_frame waitForSlot_frame[OF fetched(7)] cong: if_cong)
next
  case (failed c n c1 msg)
  then show ?case
    by (simp add: mark_failed_frame start_crawl_frame waitForSlot_frame[OF failed(7)])
next
  case (retry c n c1 msg r c')
  then show ?case
    by (simp add: mark_failed_frame start_crawl_frame waitForSlot_frame[OF retry(7)] cong: if_cong)
qed

lemma getNextUrl_in_pending:
  assumes "getNextUrl c = Some e"
  shows "e \<in> set (pendingUrls c)"
proof -
  obtain rest where "sort_key (\<lambda>e. - p_priority (snd e)) (pendingUrls c) = e # rest"
    using assms by (auto simp only: getNextUrl_def split: if_splits list.splits)
  then have "e \<in> set (sort_key (\<lambda>e. - p_priority (snd e)) (pendingUrls c))"
    by simp
  then show ?thesis by (simp only: set_sort)
qed

lemma frontier_weight_delete:
  assumes "(u, e) \<in> set pending"
  shows "frontier_weight md (AList.delete u pending) + entry_weight md e \<le> frontier_weight md pending"
  using assms
proof (induction pending)
  case Nil
  then show ?case by simp
next
  case (Cons p pending)
  show ?case
  proof (cases "p = (u, e)")
    case True
    have "frontier_weight md (AList.delete u pending) \<le> frontier_weight md pending"
      by (induction pending) (auto simp: frontier_weight_def)
    then show ?thesis using True by (simp add: frontier_weight_def)
  next
    case False
    then have "(u, e) \<in> set pending" using Cons.prems by simp
    from Cons.IH[OF this] show ?thesis
      by (cases "fst p = u") (auto simp: frontier_weight_def)
  qed
qed

lemma weight_step:
  "(if depth < md then 5 * 6 ^ nat (md - (depth + 1)) else 0) < (6::nat) ^ nat (md - depth)"
proof (cases "depth < md")
  case True
  then have "nat (md - depth) = Suc (nat (md - (depth + 1)))" by simp
  then show ?thesis using True by simp
next
  case False
  then show ?thesis by simp
qed

text \<open>
  The \<^verbatim>\<open>while\<close> loop of \<^verbatim>\<open>crawlBatch\<close>. With an empty frontier and a
  positive counter of active crawls the loop sleeps and looks again for ever (\<open>None\<close>),
  as it does when \<^verbatim>\<open>crawlUrl\<close> never returns.
\<close>

function crawl_loop :: "world \<Rightarrow> crawler \<Rightarrow> crawler option" where
  "crawl_loop w c =
     (if length (pendingUrls c) > 0 \<or> activeCrawls c > 0 then
        (case getNextUrl c of
           Some (u, metadata) \<Rightarrow>
             (case crawlUrl w (c\<lparr>pendingUrls := AList.delete u (pendingUrls c)\<rparr>) u
                     (p_depth metadata) (p_priority metadata) 0 of
                None \<Rightarrow> None
              | Some (r, c') \<Rightarrow> crawl_loop w c')
         | None \<Rightarrow> None)
      else Some c)"
  by pat_completeness auto
termination
proof (relation "measure (\<lambda>(w, c). frontier_weight (maxDepth c) (pendingUrls c))")
  show "wf (measure (\<lambda>(w, c). frontier_weight (maxDepth c) (pendingUrls c)))" by simp
next
  fix w c e u metadata rc r c'
  assume nx: "getNextUrl c = Some e" and e: "(u, metadata) = e"
    and run: "crawlUrl w (c\<lparr>pendingUrls := AList.delete u (pendingUrls c)\<rparr>) u
                (p_depth metadata) (p_priority metadata) 0 = Some rc"
    and rc: "(r, c') = rc"
  have mem: "(u, metadata) \<in> set (pendingUrls c)"
    using getNextUrl_in_pending[OF nx] e by simp
  have run': "crawlUrl w (c\<lparr>pendingUrls := AList.delete u (pendingUrls c)\<rparr>) u
                (p_depth metadata) (p_priority metadata) 0 = Some (r, c')"
    using run rc by simp
  have md: "maxDepth c' = maxDepth c" using crawlUrl_maxDepth[OF run'] by simp
  have "frontier_weight (maxDepth c) (pendingUrls c') \<le>
      frontier_weight (maxDepth c) (AList.delete u (pendingUrls c))
        + (if p_depth metadata < maxDepth c then 5 * 6 ^ nat (maxDepth c - (p_depth metadata + 1)) else 0)"
    using crawlUrl_weight[OF run'] by (simp cong: if_cong)
  also have "\<dots> < frontier_weight (maxDepth c) (AList.delete u (pendingUrls c))
        + entry_weight (maxDepth c) metadata"
    using weight_step[of "p_depth metadata" "maxDepth c"] by (simp add: entry_weight_def)
  also have "\<dots> \<le> frontier_weight (maxDepth c) (pendingUrls c)"
    by (rule frontier_weight_delete[OF mem])
  finally show "((w, c'), (w, c)) \<in> measure (\<lambda>(w, c). frontier_weight (maxDepth c) (pendingUrls c))"
    by (simp add: md)
qed

declare crawl_loop.simps [simp del]

text \<open>
  \<^verbatim>\<open>crawlBatch\<close>: the seeds enter the frontier at depth 0 with priority 10, the
  loop runs, the statistics are returned. The parameter \<open>options\<close> is not used.
\<close>

definition add_seed :: "world \<Rightarrow> crawler \<Rightarrow> string \<Rightarrow> crawler" where
  "add_seed w c u =
     (case w_normalize w u of
        None \<Rightarrow> c
      | Some normalizedUrl \<Rightarrow>
          if normalizedUrl \<noteq> [] \<and> \<not> map_has (pendingUrls c) normalizedUrl
          then c\<lparr>pendingUrls := AList.update normalizedUrl
                    \<lparr>p_depth = 0, p_priority = 10, p_parent = None\<rparr> (pendingUrls c)\<rparr>
          else c)"

definition crawlBatch ::
  "world \<Rightarrow> crawler \<Rightarrow> string list \<Rightarrow> crawler_options \<Rightarrow> (crawl_stats \<times> crawler) option" where
  "crawlBatch w c urls options =
     (case crawl_loop w (foldl (add_seed w) c urls) of
        None \<Rightarrow> None
      | Some c \<Rightarrow>
          let c = c\<lparr>events := events c @ [CrawlCompleted]\<rparr>
          in Some (getStats c, c))"

text \<open>
  What the scheduler keeps true: no URL is loaded twice, the loaded URLs are the crawled
  set, and the failed set holds the loaded URLs whose load failed.
\<close>

definition is_failure :: "fetch_result \<Rightarrow> bool" where
  "is_failure r = (case r of Failed msg \<Rightarrow> True | Fetched page pageTitle \<Rightarrow> False)"

definition crawl_inv :: "world \<Rightarrow> crawler \<Rightarrow> bool" where
  "crawl_inv w c =
     (distinct (fetchLog c) \<and> set (fetchLog c) = set (crawledUrls c)
      \<and> set (failedUrls c) = {n \<in> set (fetchLog c). is_failure (goto w n 0)})"

section \<open>Sample inputs\<close>

definition empty_content :: content where
  "empty_content = \<lparr>url = [], title = [], description = [], author = [], publishDate = [],
     c_keywords = [], headings = [], paragraphs = [], links = [], images = [], structuredData = [],
     wordCount = 0, qualityScore = 0, contentType = [], topics = []\<rparr>"

definition rt0 :: runtime where
  "rt0 = \<lparr>stem = (\<lambda>w. w), now = 0, parseDate = (\<lambda>s. None), regexMatches = (\<lambda>p t. Some 0)\<rparr>"

definition doc_a :: content where
  "doc_a = empty_content\<lparr>url := ''http://example.com/a'', title := ''Web crawler guide'',
     paragraphs := [''Crawling the web is fun.''], wordCount := 7\<rparr>"

definition doc_b :: content where
  "doc_b = empty_content\<lparr>url := ''http://example.com/b'', title := ''Search index'',
     description := ''An index of the web'', wordCount := 7\<rparr>"

definition ops0 :: "engine_op list" where
  "ops0 = [IndexContent ''d1'' doc_a, IndexContent ''d2'' doc_b, IndexContent ''d1'' doc_a]"

definition opts0 :: search_options where
  "opts0 = \<lparr>o_limit = 0, o_offset = 0,
     o_filters = \<lparr>f_contentType = [], f_minQuality = 0, f_maxAge = 0, f_minWordCount = 0,
                  f_topics = []\<rparr>\<rparr>"

text \<open>The document ids passed to \<open>indexContent\<close> in a session.\<close>

fun indexed_ids :: "engine_op list \<Rightarrow> string list" where
  "indexed_ids [] = []"
| "indexed_ids (IndexContent contentId c # ops) = contentId # indexed_ids ops"
| "indexed_ids (Clear # ops) = indexed_ids ops"

definition always :: "fetch_result \<Rightarrow> string \<Rightarrow> nat \<Rightarrow> fetch_result" where
  "always r u k = r"

definition rank_all :: "int \<Rightarrow> link list \<Rightarrow> string \<Rightarrow> (link \<times> int) list" where
  "rank_all p ls base = map (\<lambda>l. (l, p)) ls"

definition w_down :: world where
  "w_down = \<lparr>w_normalize = normalizeUrl, robotsAllowed = (\<lambda>u. True),
     goto = always (Failed ''HTTP 404: Not Found''), prioritizeLinks = rank_all 20,
     generateContentId = (\<lambda>u. u), w_runtime = rt0\<rparr>"

definition w_flaky :: world where
  "w_flaky = w_down\<lparr>goto := always (Failed ''Protocol error (Page.navigate): Target closed.'')\<rparr>"

definition home_page :: content where
  "home_page = empty_content\<lparr>url := ''http://example.com/'', title := ''Home'',
     links := [\<lparr>l_url = ''http://example.com/about'', l_text = ''About us'', l_context = [],
               isInternal = True\<rparr>]\<rparr>"

definition about_page :: content where
  "about_page = empty_content\<lparr>url := ''http://example.com/about'', title := ''About''\<rparr>"

definition site :: "string \<Rightarrow> nat \<Rightarrow> fetch_result" where
  "site u k = (if u = ''http://example.com/'' then Fetched home_page ''Home''
               else if u = ''http://example.com/about'' then Fetched about_page ''About''
               else Failed ''HTTP 404: Not Found'')"

definition w_site :: world where
  "w_site = w_down\<lparr>goto := site\<rparr>"

definition crawler0 :: crawler where
  "crawler0 = WebCrawlerAI default_crawler_config default_search_config no_options"

section \<open>Verified properties\<close>

subsection \<open>Quality scorer\<close>

lemma scoreWordCount_values:
  "scoreWordCount 0 = 0" "scoreWordCount 50 = 25" "scoreWordCount 100 = 50"
  "scoreWordCount 800 = 100" "scoreWordCount 5000 = 80" "scoreWordCount 6000 = 80"
  by (simp_all add: scoreWordCount_def minWordCount_def optimalWordCount_def maxWordCount_def)

text \<open>
  C6. For every document, the degenerate ones included (no paragraphs, no headings, no
  title, description or date), and for a missing document, \<open>calculate\<close> returns an
  integer between 0 and 100.
\<close>

theorem C6_calculate_bounds: "0 \<le> calculate rt co \<and> calculate rt co \<le> 100"
  by (cases co) (simp_all add: calculate_def Let_def)

theorem C6_calculate_bounds_witness:
  "0 \<le> calculate rt0 (Some empty_content) \<and> calculate rt0 (Some empty_content) \<le> 100"
  using C6_calculate_bounds [of rt0 "Some empty_content"] by simp

text \<open>
  C7. The word-count sub-score does not decrease when the word count grows, as long as
  the larger count is at most the optimal threshold of 800.
\<close>

theorem C7_scoreWordCount_mono:
  assumes "w1 \<le> w2" and "w2 \<le> 800"
  shows "scoreWordCount w1 \<le> scoreWordCount w2"
  using assms
  by (auto simp: scoreWordCount_def minWordCount_def optimalWordCount_def maxWordCount_def
      field_simps)

theorem C7_scoreWordCount_mono_witness:
  "(50::real) \<le> 400 \<and> (400::real) \<le> 800 \<and> scoreWordCount 50 \<le> scoreWordCount 400"
  using C7_scoreWordCount_mono [of 50 400] by simp

subsection \<open>Search index\<close>

lemma set_new_Set_aux: "set (foldl (\<lambda>s x. set_add x s) acc xs) = set acc \<union> set xs"
  by (induction xs arbitrary: acc) (auto simp: set_add_def)

lemma set_new_Set: "set (new_Set xs) = set xs"
  by (simp add: new_Set_def set_new_Set_aux)

lemma distinct_new_Set_aux: "distinct acc \<Longrightarrow> distinct (foldl (\<lambda>s x. set_add x s) acc xs)"
  by (induction xs arbitrary: acc) (auto simp: set_add_def)

lemma distinct_new_Set: "distinct (new_Set xs)"
  by (simp add: new_Set_def distinct_new_Set_aux)

lemma index_term_inv:
  "map_of (fst (index_term cid (ix, df) t)) t' =
     (if t' = t then Some (set_add cid (docs_of ix t)) else map_of ix t')"
proof (cases "map_of ix t")
  case None
  then show ?thesis
    by (simp add: index_term_def map_has_def update_conv' docs_of_def set_add_def)
next
  case (Some ds)
  then show ?thesis
    by (simp add: index_term_def map_has_def update_conv' docs_of_def set_add_def)
qed

lemma index_term_df:
  "map_of (snd (index_term cid (ix, df) t)) t' =
     (if t' = t then
        (case map_of ix t of
           None \<Rightarrow> Some (Count 1)
         | Some ds \<Rightarrow> if cid \<in> set ds then map_of df t else Some (count_succ (map_of df t)))
      else map_of df t')"
proof (cases "map_of ix t")
  case None
  then show ?thesis
    by (simp add: index_term_def map_has_def update_conv' set_add_def count_succ_def)
next
  case (Some ds)
  then show ?thesis
    by (simp add: index_term_def map_has_def update_conv' set_add_def)
qed

lemma index_term_consistent:
  assumes "df_consistent tables"
  shows "df_consistent (index_term cid tables t)"
proof -
  obtain ix df where tb: "tables = (ix, df)" by (cases tables)
  have a: "\<And>u. map_of df u = map_option (\<lambda>ds. Count (length ds)) (map_of ix u)"
    and d: "\<And>u. distinct (docs_of ix u)"
    using assms by (simp_all add: df_consistent_def tb)
  show ?thesis
    unfolding df_consistent_def tb
  proof (intro allI conjI)
    fix u
    show "map_of (snd (index_term cid (ix, df) t)) u =
       map_option (\<lambda>ds. Count (length ds)) (map_of (fst (index_term cid (ix, df) t)) u)"
      using d[of t]
      by (cases "map_of ix t")
        (simp_all add: index_term_inv index_term_df a docs_of_def set_add_def count_succ_def)
    show "distinct (docs_of (fst (index_term cid (ix, df) t)) u)"
      using d[of t] d[of u]
      by (simp add: docs_of_def index_term_inv set_add_def)
  qed
qed


lemma set_add_idem: "set_add x (set_add x xs) = set_add x xs"
  by (simp add: set_add_def)

lemma foldl_index_term_inv:
  "map_of (fst (foldl (index_term cid) (ix, df) ts)) t =
     (if t \<in> set ts then Some (set_add cid (docs_of ix t)) else map_of ix t)"
proof (induction ts arbitrary: ix df)
  case Nil
  then show ?case by simp
next
  case (Cons x xs)
  obtain ix' df' where st: "index_term cid (ix, df) x = (ix', df')"
    by (cases "index_term cid (ix, df) x")
  have ix': "\<And>u. map_of ix' u = (if u = x then Some (set_add cid (docs_of ix x)) else map_of ix u)"
    using index_term_inv[of cid ix df x] by (simp add: st)
  show ?case
    by (simp add: st Cons.IH ix' docs_of_def set_add_idem)
qed

lemma foldl_index_term_df:
  "map_of (snd (foldl (index_term cid) (ix, df) ts)) t =
     (if t \<in> set ts then
        (case map_of ix t of
           None \<Rightarrow> Some (Count 1)
         | Some ds \<Rightarrow> if cid \<in> set ds then map_of df t else Some (count_succ (map_of df t)))
      else map_of df t)"
proof (induction ts arbitrary: ix df)
  case Nil
  then show ?case by simp
next
  case (Cons x xs)
  obtain ix' df' where st: "index_term cid (ix, df) x = (ix', df')"
    by (cases "index_term cid (ix, df) x")
  have ix': "\<And>u. map_of ix' u = (if u = x then Some (set_add cid (docs_of ix x)) else map_of ix u)"
    using index_term_inv[of cid ix df x] by (simp add: st)
  have df': "\<And>u. map_of df' u =
     (if u = x then
        (case map_of ix x of
           None \<Rightarrow> Some (Count 1)
         | Some ds \<Rightarrow> if cid \<in> set ds then map_of df x else Some (count_succ (map_of df x)))
      else map_of df u)"
    using index_term_df[of cid ix df x] by (simp add: st)
  show ?case
    by (cases "map_of ix t") (auto simp: st Cons.IH ix' df' docs_of_def set_add_def)
qed

lemma foldl_index_term_consistent:
  "df_consistent tables \<Longrightarrow> df_consistent (foldl (index_term cid) tables ts)"
  by (induction ts arbitrary: tables) (simp_all add: index_term_consistent)

lemma indexContent_tables:
  "(invertedIndex (indexContent rt e cid c), documentFrequency (indexContent rt e cid c)) =
     foldl (index_term cid) (invertedIndex e, documentFrequency e) (new_Set (doc_terms rt c))"
  by (simp add: indexContent_def Let_def doc_terms_def case_prod_unfold comp_def)

lemma indexContent_consistent:
  "engine_consistent e \<Longrightarrow> engine_consistent (indexContent rt e cid c)"
  unfolding engine_consistent_def indexContent_tables
  by (rule foldl_index_term_consistent)

lemma clear_consistent: "engine_consistent (clear e)"
  by (simp add: engine_consistent_def df_consistent_def clear_def docs_of_def)

lemma SearchEngine_consistent: "engine_consistent (SearchEngine cfg)"
  by (simp add: engine_consistent_def df_consistent_def SearchEngine_def docs_of_def)

lemma run_ops_consistent:
  "engine_consistent e \<Longrightarrow> engine_consistent (run_ops rt e ops)"
  unfolding run_ops_def
proof (induction ops arbitrary: e)
  case Nil
  then show ?case by simp
next
  case (Cons op ops)
  then show ?case
    by (cases op) (simp_all add: indexContent_consistent clear_consistent)
qed

lemma indexContent_posting:
  "posting (indexContent rt e cid c) t =
     (if t \<in> set (doc_terms rt c) then set_add cid (posting e t) else posting e t)"
proof -
  have "map_of (invertedIndex (indexContent rt e cid c)) t =
      map_of (fst (foldl (index_term cid) (invertedIndex e, documentFrequency e) (new_Set (doc_terms rt c)))) t"
    by (simp add: indexContent_tables [symmetric])
  then show ?thesis
    by (simp add: posting_def docs_of_def foldl_index_term_inv set_new_Set)
qed

lemma indexContent_df:
  assumes "engine_consistent e"
  shows "map_of (documentFrequency (indexContent rt e cid c)) t =
     (if t \<in> set (doc_terms rt c) \<and> cid \<notin> set (posting e t)
      then Some (Count (length (posting e t) + 1))
      else map_of (documentFrequency e) t)"
proof -
  have eq: "map_of (documentFrequency (indexContent rt e cid c)) t =
      map_of (snd (foldl (index_term cid) (invertedIndex e, documentFrequency e) (new_Set (doc_terms rt c)))) t"
    by (simp add: indexContent_tables [symmetric])
  have a: "map_of (documentFrequency e) t = map_option (\<lambda>ds. Count (length ds)) (map_of (invertedIndex e) t)"
    using assms by (simp add: engine_consistent_def df_consistent_def)
  show ?thesis
    unfolding eq foldl_index_term_df
    by (cases "map_of (invertedIndex e) t")
      (simp_all add: set_new_Set posting_def docs_of_def a count_succ_def)
qed

lemma since_clear_snoc:
  "since_clear (ops @ [op]) = (if op = Clear then [] else since_clear ops @ [op])"
  by (simp add: since_clear_def)

lemma run_ops_snoc: "run_ops rt e (ops @ [op]) = apply_op rt (run_ops rt e ops) op"
  by (simp add: run_ops_def)

lemma posting_history:
  "set (posting (run_ops rt (SearchEngine cfg) ops) t) =
     {cid. \<exists>c. IndexContent cid c \<in> set (since_clear ops) \<and> t \<in> set (doc_terms rt c)}"
proof (induction ops rule: rev_induct)
  case Nil
  then show ?case
    by (simp add: run_ops_def posting_def docs_of_def SearchEngine_def since_clear_def)
next
  case (snoc op ops)
  show ?case
  proof (cases op)
    case (IndexContent cid c)
    then show ?thesis
      using snoc.IH
      by (auto simp: run_ops_snoc since_clear_snoc indexContent_posting set_add_def)
  next
    case Clear
    then show ?thesis
      by (simp add: run_ops_snoc since_clear_snoc posting_def docs_of_def clear_def)
  qed
qed

text \<open>Export followed by import gives back the tables of a well-formed engine.\<close>

lemma update_fresh: "k \<notin> fst ` set m \<Longrightarrow> AList.update k v m = m @ [(k, v)]"
  by (induction m) auto

lemma new_Map_aux:
  "distinct (map fst (acc @ m)) \<Longrightarrow> foldl (\<lambda>m (k, v). AList.update k v m) acc m = acc @ m"
proof (induction m arbitrary: acc)
  case Nil
  then show ?case by simp
next
  case (Cons p m)
  obtain k v where p: "p = (k, v)" by (cases p)
  have fresh: "k \<notin> fst ` set acc" using Cons.prems by (auto simp: p)
  have "distinct (map fst ((acc @ [(k, v)]) @ m))" using Cons.prems by (simp add: p)
  from Cons.IH[OF this] show ?case by (simp add: p update_fresh[OF fresh])
qed

lemma new_Map_id: "distinct (map fst m) \<Longrightarrow> new_Map m = m"
  using new_Map_aux[of "[]" m] by (simp add: new_Map_def)

lemma new_Set_aux:
  "distinct (acc @ xs) \<Longrightarrow> foldl (\<lambda>s x. set_add x s) acc xs = acc @ xs"
proof (induction xs arbitrary: acc)
  case Nil
  then show ?case by simp
next
  case (Cons x xs)
  have "distinct ((acc @ [x]) @ xs)" using Cons.prems by simp
  from Cons.IH[OF this] show ?case using Cons.prems by (simp add: set_add_def)
qed

lemma new_Set_id: "distinct xs \<Longrightarrow> new_Set xs = xs"
  using new_Set_aux[of "[]" xs] by (simp add: new_Set_def)

lemma import_export_id:
  assumes "wf_engine e"
  shows "importIndex e (exportIndex e) = e"
proof -
  have ix: "map (\<lambda>(t, docIds). (t, new_Set docIds)) (invertedIndex e) = invertedIndex e"
  proof (rule map_idI)
    fix p assume p: "p \<in> set (invertedIndex e)"
    obtain t ds where pd: "p = (t, ds)" by (cases p)
    have "map_of (invertedIndex e) t = Some ds"
      using assms p by (simp add: wf_engine_def pd)
    then have "distinct ds" using assms by (simp add: wf_engine_def)
    then show "(case p of (t, docIds) \<Rightarrow> (t, new_Set docIds)) = p"
      by (simp add: pd new_Set_id)
  qed
  have tf: "map (\<lambda>(docId, termEntries). (docId, new_Map termEntries)) (termFrequency e) = termFrequency e"
  proof (rule map_idI)
    fix p assume p: "p \<in> set (termFrequency e)"
    obtain d tm where pd: "p = (d, tm)" by (cases p)
    have "map_of (termFrequency e) d = Some tm"
      using assms p by (simp add: wf_engine_def pd)
    then have "distinct (map fst tm)" using assms by (simp add: wf_engine_def)
    then show "(case p of (docId, termEntries) \<Rightarrow> (docId, new_Map termEntries)) = p"
      by (simp add: pd new_Map_id)
  qed
  have ids: "map (\<lambda>(t, docIds). (t, docIds)) (invertedIndex e) = invertedIndex e"
    "map (\<lambda>(docId, termMap). (docId, termMap)) (termFrequency e) = termFrequency e"
    by simp_all
  show ?thesis
    using assms
    by (simp add: importIndex_def exportIndex_def ids ix tf new_Map_id wf_engine_def)
qed

lemma index_term_keys:
  assumes "distinct (map fst ix)" "distinct (map fst df)"
  shows "distinct (map fst (fst (index_term cid (ix, df) t)))
       \<and> distinct (map fst (snd (index_term cid (ix, df) t)))"
  using assms
  by (cases "map_of ix t")
    (simp_all add: index_term_def map_has_def update_conv' distinct_update)

lemma foldl_index_term_keys:
  assumes "distinct (map fst (fst tables))" "distinct (map fst (snd tables))"
  shows "distinct (map fst (fst (foldl (index_term cid) tables ts)))
       \<and> distinct (map fst (snd (foldl (index_term cid) tables ts)))"
  using assms
proof (induction ts arbitrary: tables)
  case Nil
  then show ?case by simp
next
  case (Cons x xs)
  obtain ix df where tb: "tables = (ix, df)" by (cases tables)
  show ?case
    using Cons.prems index_term_keys[of ix df cid x]
    by (simp add: tb Cons.IH)
qed

lemma distinct_add_term_freq:
  "distinct (map fst tf) \<Longrightarrow> distinct (map fst (add_term_freq b tf t))"
  by (simp add: add_term_freq_def distinct_update)

lemma distinct_foldl_add_term_freq:
  "distinct (map fst tf) \<Longrightarrow> distinct (map fst (foldl (add_term_freq b) tf ts))"
  by (induction ts arbitrary: tf) (simp_all add: distinct_add_term_freq)

lemma distinct_termFreq:
  "distinct (map fst tf) \<Longrightarrow>
   distinct (map fst (foldl (\<lambda>tf (field, ts). foldl (add_term_freq (g field)) tf ts) tf fts))"
proof (induction fts arbitrary: tf)
  case Nil
  then show ?case by simp
next
  case (Cons p fts)
  obtain f ts where p: "p = (f, ts)" by (cases p)
  show ?case using Cons.prems by (simp add: p Cons.IH distinct_foldl_add_term_freq)
qed

lemma indexContent_wf:
  assumes wf: "wf_engine e" and c: "engine_consistent e"
  shows "wf_engine (indexContent rt e cid c)"
proof -
  let ?e' = "indexContent rt e cid c"
  have tabs: "(invertedIndex ?e', documentFrequency ?e') =
     foldl (index_term cid) (invertedIndex e, documentFrequency e) (new_Set (doc_terms rt c))"
    by (rule indexContent_tables)
  have k: "distinct (map fst (invertedIndex ?e')) \<and> distinct (map fst (documentFrequency ?e'))"
    using foldl_index_term_keys[of "(invertedIndex e, documentFrequency e)" cid "new_Set (doc_terms rt c)"]
      wf tabs[symmetric] by (simp add: wf_engine_def)
  have c': "engine_consistent ?e'" by (rule indexContent_consistent[OF c])
  have p: "\<forall>t ds. map_of (invertedIndex ?e') t = Some ds \<longrightarrow> distinct ds"
  proof (intro allI impI)
    fix t ds assume "map_of (invertedIndex ?e') t = Some ds"
    then show "distinct ds"
      using c' by (auto simp: engine_consistent_def df_consistent_def docs_of_def
          dest!: spec[of _ t])
  qed
  have i: "distinct (map fst (index ?e'))"
    using wf by (simp add: indexContent_def Let_def case_prod_unfold distinct_update wf_engine_def)
  have s: "distinct (map fst (contentStore ?e'))"
    using wf by (simp add: indexContent_def Let_def case_prod_unfold distinct_update wf_engine_def)
  have t: "termFrequency ?e' = AList.update cid
      (foldl (\<lambda>tf (field, ts). foldl (add_term_freq (field_boost e field)) tf ts) []
         (map (\<lambda>(field, txt). (field, tokenizeText rt txt)) (searchableFields c))) (termFrequency e)"
    by (simp add: indexContent_def Let_def case_prod_unfold)
  have td: "distinct (map fst (termFrequency ?e'))"
    using wf by (simp add: t distinct_update wf_engine_def)
  have new_tf: "distinct (map fst (foldl (\<lambda>tf (field, ts). foldl (add_term_freq (field_boost e field)) tf ts) []
         (map (\<lambda>(field, txt). (field, tokenizeText rt txt)) (searchableFields c))))"
    by (rule distinct_termFreq) simp
  have old_tf: "\<And>d tm. map_of (termFrequency e) d = Some tm \<Longrightarrow> distinct (map fst tm)"
    using wf by (simp add: wf_engine_def)
  have tfv: "\<forall>d tm. map_of (termFrequency ?e') d = Some tm \<longrightarrow> distinct (map fst tm)"
  proof (intro allI impI)
    fix d tm assume a: "map_of (termFrequency ?e') d = Some tm"
    show "distinct (map fst tm)"
    proof (cases "d = cid")
      case True
      then show ?thesis using a new_tf by (simp add: t update_conv')
    next
      case False
      then show ?thesis using a old_tf[of d tm] by (simp add: t update_conv')
    qed
  qed
  show ?thesis
    unfolding wf_engine_def
    using i k td s p tfv by blast
qed

lemma clear_wf: "wf_engine (clear e)"
  by (simp add: wf_engine_def clear_def)

lemma SearchEngine_wf: "wf_engine (SearchEngine cfg)"
  by (simp add: wf_engine_def SearchEngine_def)

lemma run_ops_wf:
  "wf_engine e \<Longrightarrow> engine_consistent e \<Longrightarrow>
   wf_engine (run_ops rt e ops) \<and> engine_consistent (run_ops rt e ops)"
  unfolding run_ops_def
proof (induction ops arbitrary: e)
  case Nil
  then show ?case by simp
next
  case (Cons op ops)
  then show ?case
    by (cases op) (simp_all add: indexContent_wf indexContent_consistent clear_wf clear_consistent)
qed

lemma indexContent_totalDocuments:
  "totalDocuments (indexContent rt e cid c) = totalDocuments e + 1"
  by (simp add: indexContent_def Let_def case_prod_unfold)

text \<open>
  C3. The claim that the counter of documents counts distinct ids fails:
  \<open>indexContent\<close> adds one on every call, so indexing the id \<open>d1\<close> twice and
  \<open>d2\<close> once leaves the counter at 3 with 2 distinct ids in the store.
\<close>

theorem C3_totalDocuments_counts_calls:
  "totalDocuments (run_ops rt0 (SearchEngine default_search_config) ops0) = 3
   \<and> length (remdups (indexed_ids ops0)) = 2
   \<and> map fst (contentStore (run_ops rt0 (SearchEngine default_search_config) ops0)) = [''d1'', ''d2'']"
  by (simp add: run_ops_def ops0_def indexContent_totalDocuments SearchEngine_def
      indexContent_def Let_def case_prod_unfold)

theorem C3_totalDocuments_counts_calls_witness:
  "totalDocuments (run_ops rt0 (SearchEngine default_search_config) ops0)
     \<noteq> length (remdups (indexed_ids ops0))"
  using C3_totalDocuments_counts_calls by simp

text \<open>
  C5. In every session (calls of \<open>indexContent\<close> and \<open>clear\<close> on a new engine), for
  every term: the document-frequency entry is the length of the term's posting list, the
  posting list has no repetition and holds exactly the ids indexed since the last clear
  with a document containing the term; and a further \<open>indexContent\<close> raises the
  entry by one when the term is in the document and the id is not yet in the posting
  list, and leaves it unchanged otherwise.
\<close>

theorem C5_documentFrequency_counts_postings:
  fixes rt :: runtime and cfg :: search_config and ops :: "engine_op list"
  defines "e \<equiv> run_ops rt (SearchEngine cfg) ops"
  shows "map_of (documentFrequency e) t = map_option (\<lambda>ds. Count (length ds)) (map_of (invertedIndex e) t)
    \<and> distinct (posting e t)
    \<and> set (posting e t) = {cid. \<exists>c. IndexContent cid c \<in> set (since_clear ops) \<and> t \<in> set (doc_terms rt c)}
    \<and> map_of (documentFrequency (indexContent rt e cid c)) t =
        (if t \<in> set (doc_terms rt c) \<and> cid \<notin> set (posting e t)
         then Some (Count (length (posting e t) + 1))
         else map_of (documentFrequency e) t)"
proof -
  have c: "engine_consistent e"
    unfolding e_def by (rule run_ops_consistent) (rule SearchEngine_consistent)
  have 1: "map_of (documentFrequency e) t = map_option (\<lambda>ds. Count (length ds)) (map_of (invertedIndex e) t)"
    and 2: "distinct (posting e t)"
    using c by (simp_all add: engine_consistent_def df_consistent_def posting_def)
  have 3: "set (posting e t) = {cid. \<exists>c. IndexContent cid c \<in> set (since_clear ops) \<and> t \<in> set (doc_terms rt c)}"
    unfolding e_def by (rule posting_history)
  show ?thesis
    using 1 2 3 indexContent_df[OF c] by simp
qed

theorem C5_documentFrequency_counts_postings_witness:
  "posting (run_ops rt0 (SearchEngine default_search_config) ops0) ''web'' = [''d1'', ''d2'']
   \<and> map_of (documentFrequency (run_ops rt0 (SearchEngine default_search_config) ops0)) ''web''
       = Some (Count 2)"
proof -
  have ix: "map_of (invertedIndex (run_ops rt0 (SearchEngine default_search_config) ops0)) ''web''
      = Some [''d1'', ''d2'']"
    by code_simp
  show ?thesis
    using C5_documentFrequency_counts_postings [of rt0 default_search_config ops0 "''web''"]
    by (simp add: ix posting_def docs_of_def)
qed

text \<open>
  C8. In every session, exporting the index and importing the export leaves every
  search unchanged: the same results in the same order with the same scores, the same
  total, the same error.
\<close>

theorem C8_import_export_search:
  fixes rt :: runtime and cfg :: search_config and ops :: "engine_op list"
  defines "e \<equiv> run_ops rt (SearchEngine cfg) ops"
  shows "search rt (importIndex e (exportIndex e)) query opts = search rt e query opts"
proof -
  have "wf_engine e"
    unfolding e_def using run_ops_wf[OF SearchEngine_wf SearchEngine_consistent] by simp
  then show ?thesis by (simp add: import_export_id)
qed

theorem C8_import_export_search_witness:
  "search rt0 (importIndex (run_ops rt0 (SearchEngine default_search_config) ops0)
       (exportIndex (run_ops rt0 (SearchEngine default_search_config) ops0))) ''web index'' opts0
   = search rt0 (run_ops rt0 (SearchEngine default_search_config) ops0) ''web index'' opts0"
  by (rule C8_import_export_search)

subsection \<open>URL normalization\<close>

text \<open>
  C9. Normalization is not idempotent. The query is sorted and cleaned of tracking
  parameters before the whole string is put in lower case, so a parameter name with a
  capital letter is sorted and compared as written and changes afterwards: the
  normalized form of \<^verbatim>\<open>http://example.com/?B=1&a=2\<close> is normalized to a
  different string, and so is that of \<^verbatim>\<open>http://example.com/?UTM_SOURCE=x\<close>.
\<close>

theorem C9_normalize_twice:
  "normalizeUrl ''http://example.com/?B=1&a=2'' = Some ''http://example.com/?b=1&a=2''
   \<and> normalizeUrl ''http://example.com/?b=1&a=2'' = Some ''http://example.com/?a=2&b=1''
   \<and> normalizeUrl ''http://example.com/?UTM_SOURCE=x'' = Some ''http://example.com/?utm_source=x''
   \<and> normalizeUrl ''http://example.com/?utm_source=x'' = Some ''http://example.com/''"
  by code_simp

theorem C9_normalize_twice_witness:
  "normalizeUrl ''http://example.com/?b=1&a=2'' \<noteq> normalizeUrl ''http://example.com/?B=1&a=2''"
  using C9_normalize_twice by simp

subsection \<open>Crawl scheduler\<close>

lemma crawlUrl_seen:
  assumes "w_normalize w u = Some n" "n \<in> set (crawledUrls c)"
  shows "crawlUrl w c u depth priority retryCount = Some (None, c)"
  using assms by (simp del: crawlUrl.simps add: crawlUrl.simps[of w c u])

lemma crawlUrl_inv:
  assumes "crawlUrl w c u depth priority retryCount = Some (r, c')"
  shows "crawl_inv w c \<longrightarrow> crawl_inv w c' \<and> set (crawledUrls c) \<subseteq> set (crawledUrls c')"
  using assms
proof (induction rule: crawlUrl_induct)
  case (skip c)
  then show ?case by simp
next
  case (fetched c n c1 page pt pg c')
  note wf = waitForSlot_frame[OF fetched(7)]
  note pp = process_page_frame[OF fetched(9)]
  show ?case
  proof
    assume inv: "crawl_inv w c"
    have nlog: "n \<notin> set (fetchLog c)" using inv fetched(3) by (simp add: crawl_inv_def)
    then have "count_list (fetchLog c1) n = 0" by (simp add: wf count_list_0_iff)
    then have ok: "\<not> is_failure (goto w n 0)" using fetched(8) by (simp add: is_failure_def)
    show "crawl_inv w c' \<and> set (crawledUrls c) \<subseteq> set (crawledUrls c')"
      using inv nlog ok
      by (auto simp: crawl_inv_def pp start_crawl_frame wf set_add_def)
  qed
next
  case (failed c n c1 msg)
  note wf = waitForSlot_frame[OF failed(7)]
  show ?case
  proof
    assume inv: "crawl_inv w c"
    have nlog: "n \<notin> set (fetchLog c)" using inv failed(3) by (simp add: crawl_inv_def)
    then have "count_list (fetchLog c1) n = 0" by (simp add: wf count_list_0_iff)
    then have bad: "is_failure (goto w n 0)" using failed(8) by (simp add: is_failure_def)
    show "crawl_inv w ((mark_failed (start_crawl c1 n) n)\<lparr>events := events (mark_failed (start_crawl c1 n) n) @ [CrawlError n msg],
             activeCrawls := activeCrawls (mark_failed (start_crawl c1 n) n) - 1\<rparr>)
        \<and> set (crawledUrls c) \<subseteq> set (crawledUrls ((mark_failed (start_crawl c1 n) n)\<lparr>events := events (mark_failed (start_crawl c1 n) n) @ [CrawlError n msg],
             activeCrawls := activeCrawls (mark_failed (start_crawl c1 n) n) - 1\<rparr>))"
      using inv nlog bad
      by (auto simp: crawl_inv_def mark_failed_frame start_crawl_frame wf set_add_def)
  qed
next
  case (retry c n c1 msg r c')
  note wf = waitForSlot_frame[OF retry(7)]
  show ?case
  proof
    assume inv: "crawl_inv w c"
    have nlog: "n \<notin> set (fetchLog c)" using inv retry(3) by (simp add: crawl_inv_def)
    then have "count_list (fetchLog c1) n = 0" by (simp add: wf count_list_0_iff)
    then have bad: "is_failure (goto w n 0)" using retry(8) by (simp add: is_failure_def)
    have mid: "crawl_inv w ((mark_failed (start_crawl c1 n) n)\<lparr>activeCrawls := activeCrawls (mark_failed (start_crawl c1 n) n) - 2,
             events := events (mark_failed (start_crawl c1 n) n) @ [Wait 2000]\<rparr>)"
      using inv nlog bad
      by (auto simp: crawl_inv_def mark_failed_frame start_crawl_frame wf set_add_def)
    have sub: "set (crawledUrls c) \<subseteq> set (crawledUrls ((mark_failed (start_crawl c1 n) n)\<lparr>activeCrawls := activeCrawls (mark_failed (start_crawl c1 n) n) - 2,
             events := events (mark_failed (start_crawl c1 n) n) @ [Wait 2000]\<rparr>))"
      by (auto simp: mark_failed_frame start_crawl_frame wf set_add_def)
    show "crawl_inv w c' \<and> set (crawledUrls c) \<subseteq> set (crawledUrls c')"
      using retry(10) mid sub by blast
  qed
qed

lemma crawl_loop_inv:
  "crawl_loop w c = Some c' \<Longrightarrow> crawl_inv w c \<Longrightarrow>
   crawl_inv w c' \<and> set (crawledUrls c) \<subseteq> set (crawledUrls c')"
proof (induction w c arbitrary: c' rule: crawl_loop.induct)
  case (1 w c)
  show ?case
  proof (cases "length (pendingUrls c) > 0 \<or> activeCrawls c > 0")
    case False
    then have "c' = c" using "1.prems"(1) by (simp del: crawl_loop.simps add: crawl_loop.simps[of w c])
    then show ?thesis using "1.prems"(2) by simp
  next
    case True
    note t = True
    show ?thesis
    proof (cases "getNextUrl c")
      case None
      then show ?thesis using "1.prems"(1) t by (simp del: crawl_loop.simps add: crawl_loop.simps[of w c])
    next
      case (Some e)
      obtain u md where e: "e = (u, md)" by (cases e)
      let ?c0 = "c\<lparr>pendingUrls := AList.delete u (pendingUrls c)\<rparr>"
      show ?thesis
      proof (cases "crawlUrl w ?c0 u (p_depth md) (p_priority md) 0")
        case None
        then show ?thesis using "1.prems"(1) t Some e
          by (simp del: crawl_loop.simps add: crawl_loop.simps[of w c])
      next
        case (Some rc)
        obtain r c1 where rc: "rc = (r, c1)" by (cases rc)
        have loop: "crawl_loop w c1 = Some c'"
          using "1.prems"(1) t \<open>getNextUrl c = Some e\<close> e Some rc
          by (simp del: crawl_loop.simps add: crawl_loop.simps[of w c])
        have inv0: "crawl_inv w ?c0" using "1.prems"(2) by (simp add: crawl_inv_def)
        have step: "crawl_inv w c1 \<and> set (crawledUrls ?c0) \<subseteq> set (crawledUrls c1)"
          using crawlUrl_inv[of w ?c0 u "p_depth md" "p_priority md" 0 r c1] Some rc inv0 by simp
        have "crawl_inv w c' \<and> set (crawledUrls c1) \<subseteq> set (crawledUrls c')"
          using "1.IH"[OF t \<open>getNextUrl c = Some e\<close> e[symmetric] Some rc[symmetric] loop] step by simp
        then show ?thesis using step by auto
      qed
    qed
  qed
qed

lemma crawlUrl_started:
  assumes run: "crawlUrl w c u depth priority retryCount = Some (r, c')"
    and n: "w_normalize w u = Some n" "n \<noteq> []" "n \<notin> set (crawledUrls c)"
      "n \<notin> set (failedUrls c)" "depth \<le> maxDepth c" "canCrawl w c n"
  shows "n \<in> set (crawledUrls c')"
proof -
  from run show ?thesis
  proof (cases rule: crawlUrl_cases)
    case skip
    obtain c1 where c1: "waitForSlot c = Some c1"
      using run n by (cases "waitForSlot c") (simp_all del: crawlUrl.simps add: crawlUrl.simps[of w c u])
    show ?thesis
    proof (cases "goto w n (count_list (fetchLog c1) n)")
      case (Fetched page pt)
      obtain pg c2 where pp: "process_page w (start_crawl c1 n) n depth page pt = (pg, c2)"
        by (cases "process_page w (start_crawl c1 n) n depth page pt")
      then show ?thesis using run n c1 Fetched skip
        by (simp del: crawlUrl.simps add: crawlUrl.simps[of w c u])
    next
      case (Failed msg)
      have seen: "n \<in> set (crawledUrls ((mark_failed (start_crawl c1 n) n)\<lparr>activeCrawls := activeCrawls (mark_failed (start_crawl c1 n) n) - 2,
             events := events (mark_failed (start_crawl c1 n) n) @ [Wait 2000]\<rparr>))"
        by (simp add: mark_failed_frame start_crawl_frame set_add_def)
      show ?thesis
        using run n c1 Failed skip crawlUrl_seen[OF n(1) seen, of depth priority "retryCount + 1"]
        by (auto simp del: crawlUrl.simps simp add: crawlUrl.simps[of w c u] Let_def
            mark_failed_frame start_crawl_frame set_add_def split: if_splits)
    qed
  next
    case (fetched n' c1 page pt pg)
    then show ?thesis using n
      by (simp add: process_page_frame[OF fetched(9)] start_crawl_frame set_add_def)
  next
    case (failed n' c1 msg)
    then show ?thesis using n
      by (simp add: mark_failed_frame start_crawl_frame set_add_def)
  next
    case (retry n' c1 msg)
    have seen: "n \<in> set (crawledUrls ((mark_failed (start_crawl c1 n) n)\<lparr>activeCrawls := activeCrawls (mark_failed (start_crawl c1 n) n) - 2,
             events := events (mark_failed (start_crawl c1 n) n) @ [Wait 2000]\<rparr>))"
      by (simp add: mark_failed_frame start_crawl_frame set_add_def)
    have "n' = n" using retry(1) n(1) by simp
    then show ?thesis
      using retry(11) crawlUrl_seen[OF n(1) seen, of depth priority "retryCount + 1"] seen
      by simp
  qed
qed


lemma distinct_count_one: "distinct xs \<Longrightarrow> x \<in> set xs \<Longrightarrow> count_list xs x = 1"
  by (induction xs) auto

lemma crawlUrl_active:
  assumes "crawlUrl w c u depth priority retryCount = Some (r, c')"
  shows "activeCrawls c' \<le> activeCrawls c \<and> maxActiveCrawls c' = maxActiveCrawls c"
  using assms
proof (induction rule: crawlUrl_induct)
  case (skip c)
  then show ?case by simp
next
  case (fetched c n c1 page pt pg c')
  then show ?case
    by (simp add: process_page_frame[OF fetched(9)] start_crawl_frame waitForSlot_frame[OF fetched(7)])
next
  case (failed c n c1 msg)
  then show ?case
    by (simp add: mark_failed_frame start_crawl_frame waitForSlot_frame[OF failed(7)])
next
  case (retry c n c1 msg r c')
  then show ?case
    by (simp add: mark_failed_frame start_crawl_frame waitForSlot_frame[OF retry(7)])
qed

lemma crawlUrl_returns:
  assumes "activeCrawls c < maxActiveCrawls c"
  shows "\<exists>r c'. crawlUrl w c u depth priority retryCount = Some (r, c')"
proof (cases "w_normalize w u")
  case None
  then show ?thesis by (simp add: crawlUrl.simps[of w c u])
next
  case (Some n)
  have "\<exists>c1. waitForSlot c = Some c1"
    using assms by (simp add: waitForSlot_def)
  then obtain c1 where c1: "waitForSlot c = Some c1" by blast
  have seen: "n \<in> set (crawledUrls ((mark_failed (start_crawl c1 n) n)\<lparr>activeCrawls := activeCrawls (mark_failed (start_crawl c1 n) n) - 2,
             events := events (mark_failed (start_crawl c1 n) n) @ [Wait 2000]\<rparr>))"
    by (simp add: mark_failed_frame start_crawl_frame set_add_def)
  show ?thesis
  proof (cases "goto w n (count_list (fetchLog c1) n)")
    case (Fetched page pt)
    then show ?thesis using Some c1
      by (auto simp del: crawlUrl.simps simp add: crawlUrl.simps[of w c u] split: prod.splits)
  next
    case (Failed msg)
    then show ?thesis
      using Some c1 crawlUrl_seen[OF Some seen, of depth priority "retryCount + 1"]
      by (auto simp del: crawlUrl.simps simp add: crawlUrl.simps[of w c u] Let_def)
  qed
qed

lemma getNextUrl_nonempty:
  assumes "pendingUrls c \<noteq> []"
  shows "\<exists>e. getNextUrl c = Some e"
proof -
  have "length (sort_key (\<lambda>e. - p_priority (snd e)) (pendingUrls c)) \<noteq> 0"
    using assms by (simp only: length_sort) simp
  then show ?thesis
    using assms by (cases "sort_key (\<lambda>e. - p_priority (snd e)) (pendingUrls c)")
      (simp_all add: getNextUrl_def)
qed

lemma crawl_loop_returns:
  "activeCrawls c \<le> 0 \<Longrightarrow> 0 < maxActiveCrawls c \<Longrightarrow> \<exists>c'. crawl_loop w c = Some c'"
proof (induction w c rule: crawl_loop.induct)
  case (1 w c)
  show ?case
  proof (cases "pendingUrls c = []")
    case True
    then show ?thesis using "1.prems"
      by (simp del: crawl_loop.simps add: crawl_loop.simps[of w c])
  next
    case False
    then obtain e where e: "getNextUrl c = Some e" using getNextUrl_nonempty by blast
    obtain u md where ue: "e = (u, md)" by (cases e)
    let ?c0 = "c\<lparr>pendingUrls := AList.delete u (pendingUrls c)\<rparr>"
    obtain r c1 where run: "crawlUrl w ?c0 u (p_depth md) (p_priority md) 0 = Some (r, c1)"
      using crawlUrl_returns[of ?c0 w u "p_depth md" "p_priority md" 0] "1.prems" by auto
    have act: "activeCrawls c1 \<le> 0" "0 < maxActiveCrawls c1"
      using crawlUrl_active[OF run] "1.prems" by simp_all
    have t: "length (pendingUrls c) > 0 \<or> activeCrawls c > 0" using False by simp
    obtain c' where "crawl_loop w c1 = Some c'"
      using "1.IH"[OF t e ue[symmetric] run refl act] by blast
    then show ?thesis
      using False e ue run by (simp del: crawl_loop.simps add: crawl_loop.simps[of w c])
  qed
qed

lemma crawl_loop_frame:
  "crawl_loop w c = Some c' \<Longrightarrow> maxDepth c' = maxDepth c"
proof (induction w c arbitrary: c' rule: crawl_loop.induct)
  case (1 w c)
  show ?case
  proof (cases "length (pendingUrls c) > 0 \<or> activeCrawls c > 0")
    case False
    then show ?thesis using "1.prems" by (simp del: crawl_loop.simps add: crawl_loop.simps[of w c])
  next
    case True
    note t = True
    show ?thesis
    proof (cases "getNextUrl c")
      case None
      then show ?thesis using "1.prems" t by (simp del: crawl_loop.simps add: crawl_loop.simps[of w c])
    next
      case (Some e)
      obtain u md where e: "e = (u, md)" by (cases e)
      let ?c0 = "c\<lparr>pendingUrls := AList.delete u (pendingUrls c)\<rparr>"
      show ?thesis
      proof (cases "crawlUrl w ?c0 u (p_depth md) (p_priority md) 0")
        case None
        then show ?thesis using "1.prems" t Some e
          by (simp del: crawl_loop.simps add: crawl_loop.simps[of w c])
      next
        case (Some rc)
        obtain r c1 where rc: "rc = (r, c1)" by (cases rc)
        have loop: "crawl_loop w c1 = Some c'"
          using "1.prems" t \<open>getNextUrl c = Some e\<close> e Some rc
          by (simp del: crawl_loop.simps add: crawl_loop.simps[of w c])
        have "maxDepth c1 = maxDepth ?c0"
          using crawlUrl_maxDepth[of w ?c0 u "p_depth md" "p_priority md" 0 r c1] Some rc by simp
        then show ?thesis
          using "1.IH"[OF t \<open>getNextUrl c = Some e\<close> e[symmetric] Some rc[symmetric] loop] by simp
      qed
    qed
  qed
qed

lemma crawlUrl_loads_at_most_once:
  assumes "crawlUrl w c u depth priority retryCount = Some (r, c')"
  shows "length (fetchLog c') \<le> length (fetchLog c) + 1"
  using assms
proof (cases rule: crawlUrl_cases)
  case skip
  then show ?thesis by simp
next
  case (fetched n c1 page pt pg)
  then show ?thesis
    by (simp add: process_page_frame[OF fetched(9)] start_crawl_frame waitForSlot_frame[OF fetched(7)])
next
  case (failed n c1 msg)
  then show ?thesis
    by (simp add: mark_failed_frame start_crawl_frame waitForSlot_frame[OF failed(7)])
next
  case (retry n c1 msg)
  have seen: "n \<in> set (crawledUrls ((mark_failed (start_crawl c1 n) n)\<lparr>activeCrawls := activeCrawls (mark_failed (start_crawl c1 n) n) - 2,
             events := events (mark_failed (start_crawl c1 n) n) @ [Wait 2000]\<rparr>))"
    by (simp add: mark_failed_frame start_crawl_frame set_add_def)
  show ?thesis
    using retry(11) crawlUrl_seen[OF retry(1) seen, of depth priority "retryCount + 1"]
    by (auto simp: mark_failed_frame start_crawl_frame waitForSlot_frame[OF retry(7)])
qed

text \<open>
  C1, as stated, fails: the URL enters the crawled set before its page is requested and
  stays there, so a URL whose load fails ends in the crawled set and in the failed set.
\<close>

theorem C1_counterexample:
  "map_option (crawledUrls \<circ> snd) (crawlBatch w_down crawler0 [''http://example.com/''] no_options)
     = Some [''http://example.com/'']
   \<and> map_option (failedUrls \<circ> snd) (crawlBatch w_down crawler0 [''http://example.com/''] no_options)
     = Some [''http://example.com/'']"
  by code_simp

text \<open>
  C1, amended. On a new crawler with a free slot and a depth limit of at least 0, for a
  seed whose normal form \<open>n\<close> is a non-empty fixed point of the normalizer and is
  allowed by the robots check: \<open>crawlBatch\<close> returns; \<open>n\<close> is in the crawled set; it
  is in the failed set as well exactly when its load failed; it was loaded exactly once,
  and no URL was loaded twice.
\<close>

theorem C1_crawled_and_failed:
  fixes w :: world and cc oo options :: crawler_options and sc :: search_config
  defines "c \<equiv> WebCrawlerAI cc sc oo"
  assumes cfg: "0 < maxActiveCrawls c" "0 \<le> maxDepth c"
    and n: "w_normalize w u = Some n" "n \<noteq> []" "w_normalize w n = Some n"
    and robots: "canCrawl w c n"
  shows "\<exists>st c'. crawlBatch w c [u] options = Some (st, c')
           \<and> n \<in> set (crawledUrls c')
           \<and> (n \<in> set (failedUrls c') \<longleftrightarrow> is_failure (goto w n 0))
           \<and> count_list (fetchLog c') n = 1
           \<and> distinct (fetchLog c')"
proof -
  have fresh: "crawledUrls c = []" "failedUrls c = []" "pendingUrls c = []" "fetchLog c = []"
    "activeCrawls c = 0"
    by (simp_all add: c_def WebCrawlerAI_def)
  let ?e0 = "\<lparr>p_depth = 0, p_priority = 10, p_parent = None\<rparr>"
  let ?cs = "c\<lparr>pendingUrls := [(n, ?e0)]\<rparr>"
  have seed: "foldl (add_seed w) c [u] = ?cs"
    using n by (simp add: add_seed_def fresh map_has_def)
  have nx: "getNextUrl ?cs = Some (n, ?e0)" by (simp add: getNextUrl_def)
  let ?c0 = "?cs\<lparr>pendingUrls := AList.delete n (pendingUrls ?cs)\<rparr>"
  obtain r c1 where run: "crawlUrl w ?c0 n 0 10 0 = Some (r, c1)"
    using crawlUrl_returns[of ?c0 w n 0 10 0] cfg by (auto simp: fresh)
  have inv0: "crawl_inv w ?c0" by (simp add: crawl_inv_def fresh)
  have rb: "canCrawl w ?c0 n" using robots by (simp add: canCrawl_def)
  have in1: "n \<in> set (crawledUrls c1)"
    using crawlUrl_started[OF run n(3) n(2)] cfg rb by (simp add: fresh)
  have inv1: "crawl_inv w c1"
    using crawlUrl_inv[OF run] inv0 by simp
  have act: "activeCrawls c1 \<le> 0" "0 < maxActiveCrawls c1"
    using crawlUrl_active[OF run] cfg by (simp_all add: fresh)
  obtain c2 where loop: "crawl_loop w c1 = Some c2"
    using crawl_loop_returns[OF act] by blast
  have inv2: "crawl_inv w c2" and mono: "set (crawledUrls c1) \<subseteq> set (crawledUrls c2)"
    using crawl_loop_inv[OF loop inv1] by simp_all
  have whole: "crawl_loop w ?cs = Some c2"
    using nx run loop by (simp del: crawl_loop.simps add: crawl_loop.simps[of w ?cs])
  let ?c' = "c2\<lparr>events := events c2 @ [CrawlCompleted]\<rparr>"
  have res: "crawlBatch w c [u] options = Some (getStats ?c', ?c')"
    using whole by (simp add: crawlBatch_def seed Let_def del: foldl.simps)
  have in2: "n \<in> set (crawledUrls c2)" using in1 mono by blast
  then have log: "n \<in> set (fetchLog c2)" using inv2 by (simp add: crawl_inv_def)
  have d: "distinct (fetchLog c2)" using inv2 by (simp add: crawl_inv_def)
  have cnt: "count_list (fetchLog c2) n = 1"
    using d log by (rule distinct_count_one)
  have f: "n \<in> set (failedUrls c2) \<longleftrightarrow> is_failure (goto w n 0)"
    using inv2 log by (simp add: crawl_inv_def)
  show ?thesis
    using res in2 f cnt d by simp
qed

theorem C1_crawled_and_failed_witness:
  "\<exists>st c'. crawlBatch w_down crawler0 [''http://example.com/#top''] no_options = Some (st, c')
           \<and> ''http://example.com/'' \<in> set (crawledUrls c')
           \<and> ''http://example.com/'' \<in> set (failedUrls c')
           \<and> count_list (fetchLog c') ''http://example.com/'' = 1
           \<and> distinct (fetchLog c')"
proof -
  have h1: "0 < maxActiveCrawls (WebCrawlerAI default_crawler_config default_search_config no_options)"
    and h2: "0 \<le> maxDepth (WebCrawlerAI default_crawler_config default_search_config no_options)"
    by (simp_all add: WebCrawlerAI_def default_crawler_config_def no_options_def merge_opt_def int_or_def)
  have h3: "w_normalize w_down ''http://example.com/#top'' = Some ''http://example.com/''"
    and h5: "w_normalize w_down ''http://example.com/'' = Some ''http://example.com/''"
    by code_simp+
  have h4: "''http://example.com/'' \<noteq> []" by simp
  have h6: "canCrawl w_down (WebCrawlerAI default_crawler_config default_search_config no_options)
      ''http://example.com/''"
    by (simp add: canCrawl_def w_down_def)
  have f: "is_failure (goto w_down ''http://example.com/'' 0)"
    by (simp add: is_failure_def w_down_def always_def)
  show ?thesis
    using C1_crawled_and_failed [OF h1 h2 h3 h4 h5 h6, of no_options] f
    by (simp add: crawler0_def)
qed

text \<open>
  C2. The claim that a transient failure is retried fails. The URL is put in the crawled
  and the failed set before the retry, so the recursive call stops at its first test and
  loads nothing: with a load that fails with a protocol error the page is requested
  once, the URL is failed at once, the 2 second backoff is waited once, no crawl-error
  event is emitted, and the counter of active crawls ends at -1.
\<close>

theorem C2_transient_failure_not_retried:
  "map_option (fetchLog \<circ> snd) (crawlUrl w_flaky crawler0 ''http://example.com/'' 0 10 0)
     = Some [''http://example.com/'']
   \<and> map_option (failedUrls \<circ> snd) (crawlUrl w_flaky crawler0 ''http://example.com/'' 0 10 0)
     = Some [''http://example.com/'']
   \<and> map_option (events \<circ> snd) (crawlUrl w_flaky crawler0 ''http://example.com/'' 0 10 0)
     = Some [Wait 1000, Wait 2000]
   \<and> map_option (activeCrawls \<circ> snd) (crawlUrl w_flaky crawler0 ''http://example.com/'' 0 10 0)
     = Some (- 1)"
  by code_simp

theorem C2_transient_failure_not_retried_witness:
  "map_option (length \<circ> fetchLog \<circ> snd) (crawlUrl w_flaky crawler0 ''http://example.com/'' 0 10 0)
     = Some 1"
  using C2_transient_failure_not_retried by (auto simp: map_option_case split: option.splits)

text \<open>
  The depth test of \<^verbatim>\<open>crawlUrl\<close> works against the field of the crawler: a call
  at or beyond the limit \<open>maxDepth\<close> leaves the frontier as it was.
\<close>

lemma crawlUrl_at_depth_limit:
  assumes "crawlUrl w c u depth priority retryCount = Some (r, c')"
  shows "maxDepth c \<le> depth \<longrightarrow> pendingUrls c' = pendingUrls c"
  using assms
proof (induction rule: crawlUrl_induct)
  case (skip c)
  then show ?case by simp
next
  case (fetched c n c1 page pt pg c')
  show ?case
    by (simp add: process_page_pending[OF fetched(9)] start_crawl_frame
        waitForSlot_frame[OF fetched(7)])
next
  case (failed c n c1 msg)
  then show ?case
    by (simp add: mark_failed_frame start_crawl_frame waitForSlot_frame[OF failed(7)])
next
  case (retry c n c1 msg r c')
  then show ?case
    by (simp add: mark_failed_frame start_crawl_frame waitForSlot_frame[OF retry(7)])
qed

text \<open>
  C4. The claim fails on the code: \<open>crawlBatch\<close> does not read the
  \<open>maxDepth\<close> of its options, and the constructor replaces a \<open>maxDepth\<close> of 0 by
  the default 3. On a crawler built from the default configuration, with
  \<open>maxDepth = 0\<close> in the options of \<open>crawlBatch\<close>, the crawl of the seed schedules the
  page it links to, and the batch ends with two documents; the same happens when the
  0 is given to the constructor as well.
\<close>

theorem C4_maxDepth_zero_not_honoured:
  "map_option (map fst \<circ> pendingUrls \<circ> snd) (crawlUrl w_site crawler0 ''http://example.com/'' 0 10 0)
     = Some [''http://example.com/about'']
   \<and> map_option (totalPages \<circ> fst)
      (crawlBatch w_site crawler0 [''http://example.com/''] (no_options\<lparr>opt_maxDepth := Some 0\<rparr>))
     = Some 2
   \<and> map_option (crawledUrls \<circ> snd)
      (crawlBatch w_site crawler0 [''http://example.com/''] (no_options\<lparr>opt_maxDepth := Some 0\<rparr>))
     = Some [''http://example.com/'', ''http://example.com/about'']
   \<and> maxDepth (WebCrawlerAI default_crawler_config default_search_config
        (no_options\<lparr>opt_maxDepth := Some 0\<rparr>)) = 3
   \<and> map_option (totalPages \<circ> fst)
      (crawlBatch w_site
         (WebCrawlerAI default_crawler_config default_search_config
            (no_options\<lparr>opt_maxDepth := Some 0\<rparr>))
         [''http://example.com/''] (no_options\<lparr>opt_maxDepth := Some 0\<rparr>))
     = Some 2"
  by code_simp

theorem C4_maxDepth_zero_not_honoured_witness:
  "map_option (totalPages \<circ> fst)
      (crawlBatch w_site crawler0 [''http://example.com/''] (no_options\<lparr>opt_maxDepth := Some 0\<rparr>))
     \<noteq> Some 1
   \<and> map_option (length \<circ> pendingUrls \<circ> snd)
      (crawlUrl w_site crawler0 ''http://example.com/'' 0 10 0) \<noteq> Some 0"
  using C4_maxDepth_zero_not_honoured by (auto simp: map_option_case split: option.splits)

text \<open>
  C10. \<open>crawlBatch\<close> does not depend on its options: with the same seeds on the same
  crawler state any two options give the same result, so the depth limit, the number of
  slots and the delay are those of the crawler.
\<close>

theorem C10_options_ignored:
  "crawlBatch w c urls o1 = crawlBatch w c urls o2"
  by (simp add: crawlBatch_def)

theorem C10_options_ignored_witness:
  "crawlBatch w_site crawler0 [''http://example.com/''] (no_options\<lparr>opt_maxDepth := Some 0\<rparr>)
     = crawlBatch w_site crawler0 [''http://example.com/''] no_options"
  by (rule C10_options_ignored)

end
